theory Spec2Isabelle
  imports Complex_Main "HOL-Library.Multiset"
begin

section \<open>Values shared by the scripts\<close>

text \<open>
  NumPy arrays of floats are lists of reals (a two-dimensional array is the list of its
  rows). Only the ordering and the field operations of the numbers are used; rounding and
  the IEEE values nan and inf are outside the model, except where a division by zero is
  written out as a result of its own.
\<close>

type_synonym matrix = "real list list"

datatype py_error = IndexError | ValueError | EmptyDataError | Raised string

section \<open>Export of the trained weights (train\_academic\_model\_new.py, train\_healthcare\_model\_new.py)\<close>

text \<open>
  A fitted scikit-learn LogisticRegression, as far as the export reads it:
  \<open>model.coef_\<close> (classes x features) and \<open>model.intercept_\<close>.
\<close>

record linear_model =
  coef :: matrix
  intercept :: "real list"

text \<open>
  What ends up in coefs.csv: the script raised, or it wrote a matrix, or it wrote a
  matrix that holds nan or inf cells (NumPy divides by zero, and overflows, with a warning,
  not an exception).
\<close>

datatype outcome = Raises py_error | NonFinite | Written matrix

text \<open>\<open>intercept_per_feature = (intercept[0] * 1.8) / len(feature_columns)\<close>\<close>

definition intercept_per_feature :: "linear_model \<Rightarrow> nat \<Rightarrow> real" where
  "intercept_per_feature m n = (intercept m ! 0 * 1.8) / real n"

text \<open>
  \<open>coefs_with_intercept = coefs.copy(); coefs_with_intercept[0] = coefs[0] + intercept_per_feature\<close>.
  Reading row 0 of an empty array raises IndexError.
\<close>

definition coefs_with_intercept :: "linear_model \<Rightarrow> nat \<Rightarrow> py_error + matrix" where
  "coefs_with_intercept m n =
     (if intercept m = [] \<or> coef m = [] then Inl IndexError
      else Inr ((coef m)[0 := map (\<lambda>w. w + intercept_per_feature m n) (coef m ! 0)]))"

text \<open>train\_academic\_model\_new.py writes \<open>coefs_with_intercept\<close> as it is.\<close>

definition academic_export :: "linear_model \<Rightarrow> nat \<Rightarrow> outcome" where
  "academic_export m n =
     (case coefs_with_intercept m n of Inl e \<Rightarrow> Raises e | Inr cwi \<Rightarrow> Written cwi)"

text \<open>\<open>np.abs(row).max()\<close>, for a row that is not empty.\<close>

definition max_abs :: "real list \<Rightarrow> real" where
  "max_abs xs = Max (set (map abs xs))"

text \<open>
  train\_healthcare\_model\_new.py, with exact numbers. The third argument is the content
  of the financial coefs.csv, \<open>None\<close> when \<open>os.path.exists\<close> is false. \<open>pd.read_csv\<close> raises
  on a file without rows, \<open>max\<close> raises on an empty row, and a zero maximum of the
  folded row makes \<open>scale_factor\<close> inf or nan, so that every product is nan or inf.
\<close>

definition healthcare_export :: "linear_model \<Rightarrow> nat \<Rightarrow> matrix option \<Rightarrow> outcome" where
  "healthcare_export m n financial =
     (case coefs_with_intercept m n of
        Inl e \<Rightarrow> Raises e
      | Inr cwi \<Rightarrow>
          (case financial of
             None \<Rightarrow> Written cwi
           | Some rows \<Rightarrow>
               (case rows of
                  [] \<Rightarrow> Raises EmptyDataError
                | financial_coefs # _ \<Rightarrow>
                    if financial_coefs = [] \<or> cwi ! 0 = [] then Raises ValueError
                    else if max_abs (cwi ! 0) = 0 then NonFinite
                    else Written (map (map (\<lambda>w. w * (max_abs financial_coefs / max_abs (cwi ! 0)))) cwi))))"

text \<open>
  Float64 arithmetic, for the two lines of the healthcare trainer whose result depends on
  the rounding: \<open>round64 x\<close> is the float64 nearest to \<open>x\<close> (53 bits, ties to even,
  subnormal numbers below \<open>2 ** -1022\<close>); a result of magnitude \<open>2 ** 1024\<close> or more
  stands for the overflow to inf, which \<open>finite64\<close> excludes.
\<close>

definition pow2 :: "int \<Rightarrow> real" where
  "pow2 e = 2 powr real_of_int e"

definition round_even :: "real \<Rightarrow> int" where
  "round_even y =
     (let f = \<lfloor>y\<rfloor>; d = y - of_int f
      in if d < 1 / 2 then f else if 1 / 2 < d then f + 1 else if even f then f else f + 1)"

definition round64 :: "real \<Rightarrow> real" where
  "round64 x =
     (if x = 0 then 0
      else let u = pow2 (max \<lfloor>log 2 \<bar>x\<bar>\<rfloor> (- 1022) - 52)
           in sgn x * of_int (round_even (\<bar>x\<bar> / u)) * u)"

definition finite64 :: "real \<Rightarrow> bool" where
  "finite64 y \<longleftrightarrow> \<bar>y\<bar> < 2 ^ 1024"

text \<open>
  train\_healthcare\_model\_new.py with the quotient of
  \<open>scale_factor = np.abs(financial_coefs).max() / np.abs(coefs_with_intercept[0]).max()\<close>
  and the products of \<open>coefs_final = coefs_with_intercept * scale_factor\<close> rounded to
  float64; the rest as in \<open>healthcare_export\<close>.
\<close>

definition healthcare_export_float64 :: "linear_model \<Rightarrow> nat \<Rightarrow> matrix option \<Rightarrow> outcome" where
  "healthcare_export_float64 m n financial =
     (case coefs_with_intercept m n of
        Inl e \<Rightarrow> Raises e
      | Inr cwi \<Rightarrow>
          (case financial of
             None \<Rightarrow> Written cwi
           | Some rows \<Rightarrow>
               (case rows of
                  [] \<Rightarrow> Raises EmptyDataError
                | financial_coefs # _ \<Rightarrow>
                    if financial_coefs = [] \<or> cwi ! 0 = [] then Raises ValueError
                    else if max_abs (cwi ! 0) = 0 then NonFinite
                    else let scale_factor = round64 (max_abs financial_coefs / max_abs (cwi ! 0));
                             coefs_final = map (map (\<lambda>w. round64 (w * scale_factor))) cwi
                         in if finite64 scale_factor
                               \<and> (\<forall>row \<in> set coefs_final. \<forall>c \<in> set row. finite64 c)
                            then Written coefs_final else NonFinite)))"

text \<open>
  A trained binary model with \<open>n\<close> features: one coefficient row of length \<open>n\<close>
  and one intercept.
\<close>

definition trained_binary :: "linear_model \<Rightarrow> nat \<Rightarrow> bool" where
  "trained_binary m n \<longleftrightarrow> length (coef m) = 1 \<and> length (coef m ! 0) = n \<and> length (intercept m) = 1"

definition model_a :: linear_model where
  "model_a = \<lparr>coef = [[1, 3]], intercept = [10]\<rparr>"

definition model_49 :: linear_model where
  "model_49 = \<lparr>coef = [[49, 3]], intercept = [0]\<rparr>"

definition model_zero :: linear_model where
  "model_zero = \<lparr>coef = [[0, 0]], intercept = [0]\<rparr>"

section \<open>The model comparison (compareModels.py)\<close>

subsection \<open>Strings and values\<close>

definition tab :: string where "tab = [CHR 0x09]"
definition nl :: string where "nl = [CHR 0x0A]"
definition quote :: string where "quote = [CHR 0x27]"

text \<open>\<open>str(n)\<close> for a non-negative integer.\<close>

fun str_nat :: "nat \<Rightarrow> string" where
  "str_nat n = (if n < 10 then [char_of (48 + n)]
                else str_nat (n div 10) @ [char_of (48 + n mod 10)])"

declare str_nat.simps [simp del]

text \<open>
  The values of a hyperparameter grid: strings, numbers (held as the text Python prints
  for them) and booleans.
\<close>

datatype pyval = PyStr string | PyNum string | PyBool bool

fun str_val :: "pyval \<Rightarrow> string" where
  "str_val (PyStr s) = s"
| "str_val (PyNum t) = t"
| "str_val (PyBool b) = (if b then ''True'' else ''False'')"

fun repr_val :: "pyval \<Rightarrow> string" where
  "repr_val (PyStr s) = quote @ s @ quote"
| "repr_val v = str_val v"

fun join :: "string \<Rightarrow> string list \<Rightarrow> string" where
  "join sep [] = []"
| "join sep [x] = x"
| "join sep (x # y # ys) = x @ sep @ join sep (y # ys)"

type_synonym params = "(string \<times> pyval) list"

text \<open>\<open>str(d)\<close> for a dict with string keys, in insertion order.\<close>

definition str_dict :: "params \<Rightarrow> string" where
  "str_dict d = ''{'' @ join '', '' (map (\<lambda>(k, v). quote @ k @ quote @ '': '' @ repr_val v) d) @ ''}''"

subsection \<open>The fitted grid search, the configurations, the report\<close>

text \<open>
  A fitted \<open>GridSearchCV\<close> object: the two attributes the script reads,
  \<open>best_score_\<close> and \<open>best_params_\<close>, and \<open>cv_results_\<close>, which it never
  reads: one entry per cell of the grid with its mean test score, \<open>None\<close> for a cell
  whose fit was refused.
\<close>

record gs_result =
  best_score :: real
  best_params :: params
  cv_results :: "(params \<times> real option) list"

datatype ranking = Chi_squared | Mutual_Importance

text \<open>
  One call of \<open>GS.fit\<close>: \<open>Reduced n_clf n_trans n_feat r\<close> in the main loop,
  \<open>All_features n_clf n_trans\<close> in the second loop.
\<close>

datatype config = Reduced nat nat nat ranking | All_features nat nat

text \<open>
  What is written to ModelComparison.txt: literal text, a score formatted by
  \<open>"{:0.16f}".format\<close>, and the final \<open>str(max_score)\<close>.
\<close>

datatype out = Text string | Acc real | Num real

text \<open>
  The variables of the script. \<open>evaluated\<close> is a trace, not a variable of the script:
  the calls of \<open>GS.fit\<close> that returned, in call order, each with its result.
\<close>

record state =
  fp :: "out list"
  max_score :: real
  winnerString :: string
  evaluated :: "(config \<times> gs_result) list"

text \<open>
  A score as the libraries return it: a float64 that is a number, or nan (the IEEE result
  of 0/0). A comparison with nan is false.
\<close>

datatype score = Finite real | NaN

fun value_of :: "score \<Rightarrow> real" where
  "value_of (Finite x) = x"
| "value_of NaN = 0"


text \<open>
  What the script takes from outside: the feature table (an array of floats, its first
  two columns being continuous), the scores computed by
  \<open>chi2\<close> (which may hold nan) and \<open>mutual_info_classif\<close> (numbers, clipped at
  zero by the library), the four library transforms
  (\<open>trans[1]\<close> to \<open>trans[4]\<close>) and the outcome of each \<open>GS.fit\<close> call
  (indexed by the configuration, since a random forest need not give the same result twice).
\<close>

record env =
  X_all :: matrix
  chi_scores :: "score list"
  mi_scores :: "real list"
  ext_trans :: "nat \<Rightarrow> matrix \<Rightarrow> py_error + matrix"
  GS_fit :: "config \<Rightarrow> matrix \<Rightarrow> py_error + gs_result"

definition strClf :: "string list" where
  "strClf = [''Logistic Regression'', ''Random Forest'', ''Linear SVM'', ''Non-Linear SVM'']"

definition strTrans :: "string list" where
  "strTrans = [''None'', ''MinMax'', ''Standardize'', ''log()'', ''log(x+1)'']"

subsection \<open>Ranking and selection of the features\<close>

text \<open>
  \<open>np.argsort\<close> on float64: the indices in ascending order of their score, those of the
  nan scores after all the others. NumPy leaves the order of equal scores (and of the nan
  scores) open; here they keep the order of their indices.
\<close>

definition argsort :: "score list \<Rightarrow> nat list" where
  "argsort xs =
     sort_key (\<lambda>i. value_of (xs ! i)) (filter (\<lambda>i. xs ! i \<noteq> NaN) [0..<length xs])
     @ filter (\<lambda>i. xs ! i = NaN) [0..<length xs]"

definition chi_inds :: "env \<Rightarrow> nat list" where
  "chi_inds e = argsort (chi_scores e)"

definition mi_inds :: "env \<Rightarrow> nat list" where
  "mi_inds e = argsort (map Finite (mi_scores e))"

text \<open>
  The statistic of scikit-learn's \<open>chi2(X, y)[0]\<close>, which is library code and not part
  of the repository; written after the library: the labels are binarized (one indicator
  column per class; a single class gets the pair of all ones and all zeros),
  \<open>observed = Y.T @ X\<close>, \<open>expected = class_prob.T @ feature_count\<close>, and the score of
  a column is the sum over the classes of \<open>(observed - expected)**2 / expected\<close>, where
  a zero \<open>expected\<close> gives 0/0 = nan with the warning suppressed (for a table without
  negative entries a zero \<open>expected\<close> comes with a zero \<open>observed\<close>). The numbers are
  exact reals. A table with a negative entry, without rows, or with another number of rows
  than labels is refused with ValueError.
\<close>

definition class_indicators :: "nat list \<Rightarrow> real list list" where
  "class_indicators y =
     (let classes = sort (remdups y)
      in if length classes = 1 then [map (\<lambda>l. 1) y, map (\<lambda>l. 0) y]
         else map (\<lambda>c. map (\<lambda>l. if l = c then 1 else 0) y) classes)"

definition dot :: "real list \<Rightarrow> real list \<Rightarrow> real" where
  "dot u v = sum_list (map (\<lambda>(a, b). a * b) (zip u v))"

definition chi2_term :: "nat list \<Rightarrow> real list \<Rightarrow> real list \<Rightarrow> score" where
  "chi2_term y column ind =
     (let observed = dot ind column;
          expected = (sum_list ind / real (length y)) * sum_list column
      in if expected = 0 then NaN else Finite ((observed - expected)\<^sup>2 / expected))"

definition chi2_column :: "nat list \<Rightarrow> real list \<Rightarrow> score" where
  "chi2_column y column =
     (let terms = map (chi2_term y column) (class_indicators y)
      in if NaN \<in> set terms then NaN else Finite (sum_list (map value_of terms)))"

definition chi2 :: "matrix \<Rightarrow> nat list \<Rightarrow> py_error + score list" where
  "chi2 X y =
     (if X = [] \<or> length y \<noteq> length X \<or> (\<exists>row \<in> set X. \<exists>x \<in> set row. x < 0)
      then Inl ValueError
      else Inr (map (\<lambda>j. chi2_column y (map (\<lambda>row. row ! j) X)) [0..<length (hd X)]))"

text \<open>\<open>disMask = [False, False] + ([True] * (X_all.shape[1] - 2))\<close>\<close>

definition disMask :: "nat \<Rightarrow> bool list" where
  "disMask ncols = [False, False] @ replicate (ncols - 2) True"

text \<open>\<open>X[:, inds]\<close>; an index beyond the columns raises IndexError.\<close>

definition select_columns :: "matrix \<Rightarrow> nat list \<Rightarrow> py_error + matrix" where
  "select_columns X inds =
     (if \<forall>row \<in> set X. \<forall>i \<in> set inds. i < length row
      then Inr (map (\<lambda>row. map (\<lambda>i. row ! i) inds) X)
      else Inl IndexError)"

subsection \<open>The feature transformation\<close>

definition notrans :: "matrix \<Rightarrow> matrix" where
  "notrans X = X"

text \<open>\<open>np.finfo(float).eps\<close>\<close>

definition eps :: real where
  "eps = 1 / 2 ^ 52"

text \<open>\<open>trans[n_trans]\<close>\<close>

definition trans_at :: "env \<Rightarrow> nat \<Rightarrow> matrix \<Rightarrow> py_error + matrix" where
  "trans_at e n_trans = (if n_trans = 0 then (\<lambda>X. Inr (notrans X)) else ext_trans e n_trans)"

text \<open>
  \<open>X = deepcopy(X_all); X[1:3] = trans[n_trans](X[1:3] + np.finfo(float).eps)\<close>.
  \<open>X[1:3]\<close> is the block of the rows 1 and 2 (fewer when the table is shorter). The
  registered transforms give back a block of the same shape; a value of another shape is
  reported as ValueError (NumPy's broadcasting of smaller shapes is not modelled).
\<close>

definition transformed :: "env \<Rightarrow> nat \<Rightarrow> py_error + matrix" where
  "transformed e n_trans =
     (let X = X_all e; block = take 2 (drop 1 X)
      in case trans_at e n_trans (map (map (\<lambda>x. x + eps)) block) of
           Inl err \<Rightarrow> Inl err
         | Inr v \<Rightarrow> if map length v = map length block
                    then Inr (take 1 X @ v @ drop 3 X) else Inl ValueError)"

subsection \<open>One grid search\<close>

definition init_state :: state where
  "init_state = \<lparr>fp = [], max_score = 0, winnerString = [], evaluated = []\<rparr>"

definition fp_write :: "string \<Rightarrow> state \<Rightarrow> state" where
  "fp_write s st = st\<lparr>fp := fp st @ [Text s]\<rparr>"

text \<open>The lines \<open>fp.write("\t\t\tAcc:" ...)\<close> to \<open>fp.write("\n")\<close>.\<close>

definition report_result :: "gs_result \<Rightarrow> state \<Rightarrow> state" where
  "report_result GS st =
     st\<lparr>fp := fp st @ [Text (tab @ tab @ tab @ ''Acc:''), Acc (best_score GS), Text tab]
                    @ map (\<lambda>(x, y). Text (x @ '':'' @ str_val y @ '' '')) (best_params GS)
                    @ [Text nl]\<rparr>"

text \<open>The text that \<open>winnerString\<close> is set to at each of the three places.\<close>

fun descriptor :: "config \<Rightarrow> string" where
  "descriptor (Reduced n_clf n_trans n_feat Chi_squared) =
     strClf ! n_clf @ '' is the winner with '' @ str_nat n_feat
       @ '' features removed using Chi_squared, '' @ strTrans ! n_trans
       @ '' feature transformation, and the following params:''"
| "descriptor (Reduced n_clf n_trans n_feat Mutual_Importance) =
     strClf ! n_clf @ '' is the winner with '' @ str_nat n_feat
       @ '' features removed using Mutual Importance, '' @ strTrans ! n_trans
       @ '' feature transformation, and the following params:''"
| "descriptor (All_features n_clf n_trans) =
     strClf ! n_clf @ '' is the winner using all features, '' @ strTrans ! n_trans
       @ '' feature transformation, and the following params:''"

text \<open>\<open>if GS.best_score_ > max_score: winnerString = ...; max_score = GS.best_score_\<close>\<close>

definition update_winner :: "config \<Rightarrow> gs_result \<Rightarrow> state \<Rightarrow> state" where
  "update_winner c GS st =
     (if best_score GS > max_score st
      then st\<lparr>winnerString := descriptor c @ str_dict (best_params GS), max_score := best_score GS\<rparr>
      else st)"

text \<open>
  \<open>GS = GridSearchCV(clf, parameters, n_jobs=-1); GS.fit(X_selected, Y)\<close>, the report of
  the result and the update of the best result. Nothing catches what \<open>GS.fit\<close> raises.
\<close>

definition fit_and_record :: "env \<Rightarrow> config \<Rightarrow> matrix \<Rightarrow> state \<Rightarrow> py_error + state" where
  "fit_and_record e c X_selected st =
     (case GS_fit e c X_selected of
        Inl err \<Rightarrow> Inl err
      | Inr GS \<Rightarrow>
          Inr (update_winner c GS (report_result GS (st\<lparr>evaluated := evaluated st @ [(c, GS)]\<rparr>))))"

subsection \<open>The loops\<close>

fun for_each :: "'a list \<Rightarrow> ('a \<Rightarrow> 's \<Rightarrow> py_error + 's) \<Rightarrow> 's \<Rightarrow> py_error + 's" where
  "for_each [] body s = Inr s"
| "for_each (x # xs) body s =
     (case body x s of Inl err \<Rightarrow> Inl err | Inr s' \<Rightarrow> for_each xs body s')"

definition chi_feat :: "env \<Rightarrow> nat \<Rightarrow> nat \<Rightarrow> matrix \<Rightarrow> nat \<Rightarrow> state \<Rightarrow> py_error + state" where
  "chi_feat e n_clf n_trans X n_feat st =
     (case select_columns X (drop n_feat (chi_inds e)) of
        Inl err \<Rightarrow> Inl err
      | Inr X_selected \<Rightarrow>
          fit_and_record e (Reduced n_clf n_trans n_feat Chi_squared) X_selected
            (fp_write (tab @ tab @ ''Chi_feat: '' @ str_nat n_feat @ nl) st))"

definition mi_feat :: "env \<Rightarrow> nat \<Rightarrow> nat \<Rightarrow> matrix \<Rightarrow> nat \<Rightarrow> state \<Rightarrow> py_error + state" where
  "mi_feat e n_clf n_trans X n_feat st =
     (case select_columns X (drop n_feat (mi_inds e)) of
        Inl err \<Rightarrow> Inl err
      | Inr X_selected \<Rightarrow>
          fit_and_record e (Reduced n_clf n_trans n_feat Mutual_Importance) X_selected
            (fp_write (tab @ tab @ ''MI_feat: '' @ str_nat n_feat @ nl) st))"

text \<open>The body of \<open>for n_feat in [2500,3500,4500]\<close>.\<close>

definition for_feat :: "env \<Rightarrow> nat \<Rightarrow> nat \<Rightarrow> matrix \<Rightarrow> nat \<Rightarrow> state \<Rightarrow> py_error + state" where
  "for_feat e n_clf n_trans X n_feat st =
     (case chi_feat e n_clf n_trans X n_feat st of
        Inl err \<Rightarrow> Inl err
      | Inr st' \<Rightarrow> mi_feat e n_clf n_trans X n_feat st')"

text \<open>The body of \<open>for n_trans in range(0,5)\<close> in the main loop.\<close>

definition for_trans :: "env \<Rightarrow> nat \<Rightarrow> nat \<Rightarrow> state \<Rightarrow> py_error + state" where
  "for_trans e n_clf n_trans st =
     (case transformed e n_trans of
        Inl err \<Rightarrow> Inl err
      | Inr X \<Rightarrow>
          for_each [2500, 3500, 4500] (for_feat e n_clf n_trans X)
            (fp_write (tab @ strTrans ! n_trans @ '':'' @ nl) st))"

text \<open>The body of \<open>for n_clf, clf in enumerate(classifiers)\<close> in the main loop.\<close>

definition for_clf :: "env \<Rightarrow> nat \<Rightarrow> state \<Rightarrow> py_error + state" where
  "for_clf e n_clf st =
     (case for_each [0..<5] (for_trans e n_clf) (fp_write (strClf ! n_clf @ '':'' @ nl) st) of
        Inl err \<Rightarrow> Inl err
      | Inr st' \<Rightarrow> Inr (fp_write (nl @ nl) st'))"

definition main_loop :: "env \<Rightarrow> state \<Rightarrow> py_error + state" where
  "main_loop e st = for_each [0..<4] (for_clf e) st"

text \<open>The second pair of loops, on all features.\<close>

definition all_trans :: "env \<Rightarrow> nat \<Rightarrow> nat \<Rightarrow> state \<Rightarrow> py_error + state" where
  "all_trans e n_clf n_trans st =
     (case transformed e n_trans of
        Inl err \<Rightarrow> Inl err
      | Inr X \<Rightarrow>
          fit_and_record e (All_features n_clf n_trans) X
            (fp_write (tab @ tab @ strTrans ! n_trans @ '':'' @ nl) st))"

definition all_clf :: "env \<Rightarrow> nat \<Rightarrow> state \<Rightarrow> py_error + state" where
  "all_clf e n_clf st =
     for_each [0..<5] (all_trans e n_clf) (fp_write (tab @ strClf ! n_clf @ '':'' @ nl) st)"

definition all_loop :: "env \<Rightarrow> state \<Rightarrow> py_error + state" where
  "all_loop e st = for_each [0..<4] (all_clf e) (fp_write (''All features'' @ nl) st)"

text \<open>The summary at the end of the file.\<close>

definition summary :: "state \<Rightarrow> state" where
  "summary st =
     st\<lparr>fp := fp st @ [Text (nl @ nl @ ''Best Preforming Model:'' @ nl),
                       Text ''Accuracy: '', Num (max_score st), Text nl,
                       Text (winnerString st @ nl)]\<rparr>"

text \<open>The script, from \<open>fp = open("ModelComparison.txt","w")\<close> on.\<close>

definition compareModels :: "env \<Rightarrow> py_error + state" where
  "compareModels e =
     (case main_loop e init_state of
        Inl err \<Rightarrow> Inl err
      | Inr st \<Rightarrow>
          (case all_loop e st of
             Inl err \<Rightarrow> Inl err
           | Inr st' \<Rightarrow> Inr (summary st')))"

subsection \<open>Notions used to state the properties\<close>

text \<open>The scores in the report, in the order written.\<close>

fun acc_entries :: "out list \<Rightarrow> real list" where
  "acc_entries [] = []"
| "acc_entries (Acc s # os) = s # acc_entries os"
| "acc_entries (_ # os) = acc_entries os"

text \<open>The score of an evaluated configuration and the text it would be recorded with.\<close>

definition result_of :: "config \<times> gs_result \<Rightarrow> real \<times> string" where
  "result_of cg = (best_score (snd cg), descriptor (fst cg) @ str_dict (best_params (snd cg)))"

text \<open>
  Folding one result into a best-so-far pair of score and text, with the comparison of
  \<open>update_winner\<close>; the pairs are those of \<open>result_of\<close>.
\<close>

definition keep_best :: "real \<times> string \<Rightarrow> real \<times> string \<Rightarrow> real \<times> string" where
  "keep_best b r = (if fst r > fst b then r else b)"

text \<open>The configurations handed to \<open>GS.fit\<close> so far.\<close>

definition calls :: "state \<Rightarrow> config list" where
  "calls st = map fst (evaluated st)"

text \<open>
  The variables agree with the trace: the best result is the fold of the results so far,
  and the scores in the report are those of the calls so far.
\<close>

definition tracked :: "state \<Rightarrow> bool" where
  "tracked st \<longleftrightarrow>
     (max_score st, winnerString st) = foldl keep_best (0, []) (map result_of (evaluated st))
     \<and> acc_entries (fp st) = map (\<lambda>cg. best_score (snd cg)) (evaluated st)"

text \<open>Every result in the trace is what \<open>GS.fit\<close> returned for its configuration.\<close>

definition from_fit :: "env \<Rightarrow> state \<Rightarrow> bool" where
  "from_fit e st \<longleftrightarrow> (\<forall>cg \<in> set (evaluated st). \<exists>X. GS_fit e (fst cg) X = Inr (snd cg))"

text \<open>The order in which the two pairs of loops call \<open>GS.fit\<close>.\<close>

definition reduced_configs :: "config list" where
  "reduced_configs =
     concat (map (\<lambda>n_clf. concat (map (\<lambda>n_trans. concat (map (\<lambda>n_feat.
        [Reduced n_clf n_trans n_feat Chi_squared, Reduced n_clf n_trans n_feat Mutual_Importance])
        [2500, 3500, 4500])) [0..<5])) [0..<4])"

definition all_configs :: "config list" where
  "all_configs =
     concat (map (\<lambda>n_clf. map (\<lambda>n_trans. All_features n_clf n_trans) [0..<5]) [0..<4])"

text \<open>
  The order as the specification words it: the all-features configuration of a model
  family and a transform right after the reduced configurations of that pair.
\<close>

definition interleaved_configs :: "config list" where
  "interleaved_configs =
     concat (map (\<lambda>n_clf. concat (map (\<lambda>n_trans. concat (map (\<lambda>n_feat.
        [Reduced n_clf n_trans n_feat Chi_squared, Reduced n_clf n_trans n_feat Mutual_Importance])
        [2500, 3500, 4500]) @ [All_features n_clf n_trans]) [0..<5])) [0..<4])"

text \<open>
  Two runs that cannot be told apart by the attributes the script reads: the grid
  searches return the same best score and best parameters (or raise the same error).
\<close>

definition same_best :: "gs_result \<Rightarrow> gs_result \<Rightarrow> bool" where
  "same_best g g' \<longleftrightarrow> best_score g = best_score g' \<and> best_params g = best_params g'"

definition agree :: "env \<Rightarrow> env \<Rightarrow> bool" where
  "agree e e' \<longleftrightarrow>
     X_all e = X_all e' \<and> chi_scores e = chi_scores e' \<and> mi_scores e = mi_scores e'
     \<and> ext_trans e = ext_trans e'
     \<and> (\<forall>c X. rel_sum (=) same_best (GS_fit e c X) (GS_fit e' c X))"

text \<open>What the script leaves behind: the report and the two variables.\<close>

definition same_visible :: "state \<Rightarrow> state \<Rightarrow> bool" where
  "same_visible s t \<longleftrightarrow>
     fp s = fp t \<and> max_score s = max_score t \<and> winnerString s = winnerString t"

subsection \<open>Sample inputs\<close>

text \<open>
  The cells of two grids in the order of \<open>ParameterGrid\<close> (keys sorted, the last key
  fastest), each with its mean test score. With \<open>strict\<close> the estimator refuses the
  penalty l1 with the solver lbfgs, and the penalty l1 with the loss hinge.
\<close>

definition logreg_cells :: "bool \<Rightarrow> (params \<times> real option) list" where
  "logreg_cells strict =
     concat (map (\<lambda>c. concat (map (\<lambda>p. map (\<lambda>s.
        ([(''C'', PyNum c), (''penalty'', PyStr p), (''solver'', PyStr s)],
         (if strict \<and> p = ''l1'' \<and> s = ''lbfgs'' then None else Some (9 / 10))))
        [''liblinear'', ''lbfgs'']) [''l1'', ''l2''])) [''0.1'', ''1'', ''10''])"

definition gs_logreg :: "bool \<Rightarrow> gs_result" where
  "gs_logreg strict =
     \<lparr>best_score = 9 / 10,
      best_params = [(''C'', PyNum ''0.1''), (''penalty'', PyStr ''l1''), (''solver'', PyStr ''liblinear'')],
      cv_results = logreg_cells strict\<rparr>"

definition gs_forest :: gs_result where
  "gs_forest =
     \<lparr>best_score = 9 / 10,
      best_params = [(''bootstrap'', PyBool False), (''criterion'', PyStr ''gini''),
                     (''n_estimators'', PyNum ''100'')],
      cv_results = concat (map (\<lambda>b. concat (map (\<lambda>c. map (\<lambda>n.
         ([(''bootstrap'', PyBool b), (''criterion'', PyStr c), (''n_estimators'', PyNum n)],
          Some (9 / 10))) [''100'', ''200'', ''300'']) [''gini'', ''entropy''])) [False, True])\<rparr>"

definition lsvm_cells :: "bool \<Rightarrow> (params \<times> real option) list" where
  "lsvm_cells strict =
     concat (map (\<lambda>c. concat (map (\<lambda>l. map (\<lambda>p.
        ([(''C'', PyNum c), (''loss'', PyStr l), (''max_iter'', PyNum ''10000''), (''penalty'', PyStr p)],
         (if strict \<and> p = ''l1'' \<and> l = ''hinge'' then None
          else if p = ''l2'' \<and> l = ''squared_hinge'' then Some (17 / 20) else Some (4 / 5))))
        [''l1'', ''l2'']) [''hinge'', ''squared_hinge''])) [''0.1'', ''1'', ''10''])"

definition gs_lsvm :: "bool \<Rightarrow> gs_result" where
  "gs_lsvm strict =
     \<lparr>best_score = 17 / 20,
      best_params = [(''C'', PyNum ''0.1''), (''loss'', PyStr ''squared_hinge''),
                     (''max_iter'', PyNum ''10000''), (''penalty'', PyStr ''l2'')],
      cv_results = lsvm_cells strict\<rparr>"

definition gs_svc :: gs_result where
  "gs_svc =
     \<lparr>best_score = 4 / 5,
      best_params = [(''C'', PyNum ''0.1''), (''kernel'', PyStr ''poly'')],
      cv_results = concat (map (\<lambda>c. map (\<lambda>k.
         ([(''C'', PyNum c), (''kernel'', PyStr k)], Some (4 / 5))) [''poly'', ''rbf'']) [''0.1'', ''1'', ''10''])\<rparr>"

definition clf_of :: "config \<Rightarrow> nat" where
  "clf_of c = (case c of Reduced n_clf _ _ _ \<Rightarrow> n_clf | All_features n_clf _ \<Rightarrow> n_clf)"

text \<open>
  A grid search that returns, for every table, a result that depends on the model family
  only; the logistic regression and the random forest tie.
\<close>

definition sample_fit :: "bool \<Rightarrow> config \<Rightarrow> matrix \<Rightarrow> py_error + gs_result" where
  "sample_fit strict c X =
     Inr (if clf_of c = 0 then gs_logreg strict
          else if clf_of c = 1 then gs_forest
          else if clf_of c = 2 then gs_lsvm strict
          else gs_svc)"

text \<open>
  A table of ten samples and 5000 constant features, whose scores are all zero. In
  \<open>env_a\<close> the estimators refuse the unsupported cells, in \<open>env_b\<close> they refuse
  nothing.
\<close>

definition env_a :: env where
  "env_a = \<lparr>X_all = replicate 10 (replicate 5000 1),
            chi_scores = replicate 5000 (Finite 0), mi_scores = replicate 5000 0,
            ext_trans = (\<lambda>n X. Inr X),
            GS_fit = sample_fit True\<rparr>"

definition env_b :: env where
  "env_b = \<lparr>X_all = replicate 10 (replicate 5000 1),
            chi_scores = replicate 5000 (Finite 0), mi_scores = replicate 5000 0,
            ext_trans = (\<lambda>n X. Inr X),
            GS_fit = sample_fit False\<rparr>"

text \<open>A table of three samples: two continuous columns and one discrete column.\<close>

definition env_small :: env where
  "env_small = \<lparr>X_all = [[1 / 2, 3 / 2, 1], [1 / 4, 5 / 2, 1], [3 / 4, 7 / 2, 0]],
                chi_scores = [Finite 3, Finite 1, Finite 2], mi_scores = [1 / 5, 1 / 2, 1 / 10],
                ext_trans = (\<lambda>n X. Inr X),
                GS_fit = sample_fit False\<rparr>"

text \<open>
  A table of four samples whose third column is constant and whose fourth column is all
  zero, with its labels; the chi-squared scores of \<open>env_z\<close> are those of \<open>chi2\<close>.
\<close>

definition table_z :: matrix where
  "table_z = [[1, 2, 5, 0], [3, 1, 5, 0], [1, 4, 5, 0], [2, 2, 5, 0]]"

definition labels_z :: "nat list" where
  "labels_z = [0, 1, 0, 1]"

definition env_z :: env where
  "env_z = \<lparr>X_all = table_z,
            chi_scores = [Finite (9 / 7), Finite 1, Finite 0, NaN],
            mi_scores = [1 / 5, 1 / 2, 0, 0],
            ext_trans = (\<lambda>n X. Inr X),
            GS_fit = sample_fit False\<rparr>"

section \<open>Properties of the export\<close>

lemma coefs_with_intercept_binary:
  assumes "trained_binary m n"
  shows "coefs_with_intercept m n = Inr [map (\<lambda>w. w + intercept m ! 0 * 1.8 / real n) (coef m ! 0)]"
proof -
  from assms obtain r where r: "coef m = [r]"
    by (cases "coef m") (auto simp: trained_binary_def)
  from assms have "intercept m \<noteq> []"
    by (auto simp: trained_binary_def)
  with r show ?thesis
    by (simp add: coefs_with_intercept_def intercept_per_feature_def)
qed

lemma max_abs_scale:
  assumes "xs \<noteq> []"
  shows "max_abs (map (\<lambda>w. w * s) xs) = max_abs xs * \<bar>s\<bar>"
proof -
  have fin: "finite (set (map abs xs))" and ne: "set (map abs xs) \<noteq> {}"
    using assms by auto
  have "mono (\<lambda>x::real. x * \<bar>s\<bar>)"
    by (rule monoI) (simp add: mult_right_mono)
  then have "Max (set (map abs xs)) * \<bar>s\<bar> = Max ((\<lambda>x. x * \<bar>s\<bar>) ` set (map abs xs))"
    using fin ne by (rule mono_Max_commute)
  moreover have "(\<lambda>x. x * \<bar>s\<bar>) ` set (map abs xs) = set (map abs (map (\<lambda>w. w * s) xs))"
    by (auto simp: abs_mult image_iff)
  ultimately show ?thesis
    by (simp add: max_abs_def)
qed

lemma max_abs_nonneg:
  assumes "xs \<noteq> []"
  shows "0 \<le> max_abs xs"
proof -
  from assms obtain x where "x \<in> set xs" by (cases xs) auto
  then have "\<bar>x\<bar> \<le> max_abs xs"
    by (simp add: max_abs_def)
  then show ?thesis by linarith
qed

subsection \<open>Rounding to float64\<close>

lemma pow2_pos: "0 < pow2 e"
  by (simp add: pow2_def)

lemma pow2_add: "pow2 (a + b) = pow2 a * pow2 b"
  by (simp add: pow2_def powr_add)

lemma pow2_nat: "pow2 (int n) = 2 ^ n"
  by (simp add: pow2_def powr_realpow)

lemma pow2_neg: "pow2 (- int n) = 1 / 2 ^ n"
  by (simp add: pow2_def powr_minus powr_realpow divide_inverse)

lemma pow2_mono: "a \<le> b \<Longrightarrow> pow2 a \<le> pow2 b"
  by (simp add: pow2_def)

lemma floor_log2:
  assumes "pow2 e \<le> x" and "x < pow2 (e + 1)"
  shows "\<lfloor>log 2 x\<rfloor> = e"
proof -
  have x: "0 < x"
    using assms(1) pow2_pos [of e] by linarith
  have "real_of_int e \<le> log 2 x"
    using assms(1) x by (simp add: le_log_iff pow2_def)
  moreover have "log 2 x < real_of_int e + 1"
    using assms(2) x by (simp add: log_less_iff pow2_def)
  ultimately show ?thesis
    by (simp add: floor_eq_iff)
qed

lemma pow2_floor_log2_le:
  assumes "0 < x"
  shows "pow2 \<lfloor>log 2 x\<rfloor> \<le> x"
proof -
  have "real_of_int \<lfloor>log 2 x\<rfloor> \<le> log 2 x"
    by simp
  then have "2 powr real_of_int \<lfloor>log 2 x\<rfloor> \<le> 2 powr log 2 x"
    by simp
  with assms show ?thesis
    by (simp add: pow2_def)
qed

lemma round_even_error: "\<bar>real_of_int (round_even y) - y\<bar> \<le> 1 / 2"
proof -
  have "real_of_int \<lfloor>y\<rfloor> \<le> y" and "y < real_of_int \<lfloor>y\<rfloor> + 1"
    by linarith+
  then show ?thesis
    by (auto simp: round_even_def Let_def)
qed

text \<open>The rounding error is at most half a unit in the last place.\<close>

lemma round64_error:
  assumes "x \<noteq> 0"
  shows "\<bar>round64 x - x\<bar> \<le> pow2 (max \<lfloor>log 2 \<bar>x\<bar>\<rfloor> (- 1022) - 52) / 2"
proof -
  let ?u = "pow2 (max \<lfloor>log 2 \<bar>x\<bar>\<rfloor> (- 1022) - 52)"
  let ?r = "real_of_int (round_even (\<bar>x\<bar> / ?u))"
  have u: "0 < ?u"
    by (rule pow2_pos)
  have "round64 x - x = sgn x * (?r * ?u - \<bar>x\<bar>)"
    using assms by (simp add: round64_def Let_def algebra_simps sgn_real_def abs_real_def)
  then have "\<bar>round64 x - x\<bar> = \<bar>?r * ?u - \<bar>x\<bar>\<bar>"
    using assms by (simp add: abs_mult sgn_real_def)
  also have "?r * ?u - \<bar>x\<bar> = (?r - \<bar>x\<bar> / ?u) * ?u"
    using u by (simp add: algebra_simps)
  also have "\<bar>\<dots>\<bar> = \<bar>?r - \<bar>x\<bar> / ?u\<bar> * ?u"
    using u by (simp add: abs_mult)
  also have "\<dots> \<le> 1 / 2 * ?u"
    using round_even_error [of "\<bar>x\<bar> / ?u"] u by (intro mult_right_mono) simp_all
  finally show ?thesis
    by simp
qed

lemma round64_relative:
  assumes "pow2 (- 1022) \<le> \<bar>x\<bar>"
  shows "\<bar>round64 x - x\<bar> \<le> \<bar>x\<bar> / 2 ^ 53"
proof -
  have x: "x \<noteq> 0" "0 < \<bar>x\<bar>"
    using assms pow2_pos [of "- 1022"] by auto
  let ?e = "\<lfloor>log 2 \<bar>x\<bar>\<rfloor>"
  have "real_of_int (- 1022) \<le> log 2 \<bar>x\<bar>"
    using assms x by (simp add: le_log_iff pow2_def)
  then have "- 1022 \<le> ?e"
    by (simp add: le_floor_iff)
  then have m: "max ?e (- 1022) = ?e"
    by simp
  have "pow2 (?e - 52) / 2 = pow2 ?e * pow2 (- int 53)"
    using pow2_add [of ?e "- 52"] pow2_neg [of 52] pow2_neg [of 53] by simp
  also have "\<dots> \<le> \<bar>x\<bar> * pow2 (- int 53)"
    using pow2_floor_log2_le [OF x(2)] pow2_pos [of "- int 53"] by (intro mult_right_mono) simp_all
  also have "\<dots> = \<bar>x\<bar> / 2 ^ 53"
    by (simp only: pow2_neg) simp
  finally have h: "pow2 (?e - 52) / 2 \<le> \<bar>x\<bar> / 2 ^ 53" .
  have "\<bar>round64 x - x\<bar> \<le> pow2 (?e - 52) / 2"
    using round64_error [OF x(1)] unfolding m .
  from this h show ?thesis
    by (rule order_trans)
qed

lemma round64_eval:
  assumes "pow2 e \<le> \<bar>x\<bar>" and "\<bar>x\<bar> < pow2 (e + 1)" and "- 1022 \<le> e"
  shows "round64 x = sgn x * of_int (round_even (\<bar>x\<bar> / pow2 (e - 52))) * pow2 (e - 52)"
proof -
  have "x \<noteq> 0"
    using assms(1) pow2_pos [of e] by auto
  moreover have "\<lfloor>log 2 \<bar>x\<bar>\<rfloor> = e"
    by (rule floor_log2 [OF assms(1,2)])
  ultimately show ?thesis
    using assms(3) by (simp add: round64_def Let_def)
qed

lemma round_even_eval:
  assumes "real_of_int f \<le> y" and "y < real_of_int f + 1"
  shows "y - real_of_int f < 1 / 2 \<Longrightarrow> round_even y = f"
    and "1 / 2 < y - real_of_int f \<Longrightarrow> round_even y = f + 1"
    and "y - real_of_int f = 1 / 2 \<Longrightarrow> round_even y = (if even f then f else f + 1)"
proof -
  have "\<lfloor>y\<rfloor> = f"
    using assms by (simp add: floor_eq_iff)
  then show "y - real_of_int f < 1 / 2 \<Longrightarrow> round_even y = f"
    and "1 / 2 < y - real_of_int f \<Longrightarrow> round_even y = f + 1"
    and "y - real_of_int f = 1 / 2 \<Longrightarrow> round_even y = (if even f then f else f + 1)"
    by (simp_all add: round_even_def Let_def)
qed

lemma round64_one_49th: "round64 (1 / 49) = 5882252574524729 / 2 ^ 58"
proof -
  have p: "pow2 (- 6) = 1 / 2 ^ 6" "pow2 (- 5) = 1 / 2 ^ 5" "pow2 (- 58) = 1 / 2 ^ 58"
    using pow2_neg [of 6] pow2_neg [of 5] pow2_neg [of 58] by simp_all
  have "round64 (1 / 49) = sgn (1 / 49 :: real) * of_int (round_even (\<bar>1 / 49\<bar> / pow2 (- 6 - 52))) * pow2 (- 6 - 52)"
    by (rule round64_eval) (simp_all add: p)
  moreover have "round_even (\<bar>1 / 49\<bar> / pow2 (- 6 - 52)) = 5882252574524729"
    by (rule round_even_eval(1)) (simp_all add: p)
  ultimately show ?thesis
    by (simp add: p)
qed

lemma round64_49_times: "round64 (49 * (5882252574524729 / 2 ^ 58)) = 1 - 1 / 2 ^ 53"
proof -
  let ?x = "49 * (5882252574524729 / 2 ^ 58) :: real"
  have p: "pow2 (- 1) = 1 / 2" "pow2 0 = 1" "pow2 (- 53) = 1 / 2 ^ 53"
    using pow2_neg [of 1] pow2_neg [of 0] pow2_neg [of 53] by simp_all
  have "round64 ?x = sgn ?x * of_int (round_even (\<bar>?x\<bar> / pow2 (- 1 - 52))) * pow2 (- 1 - 52)"
    by (rule round64_eval) (simp_all add: p)
  moreover have "round_even (\<bar>?x\<bar> / pow2 (- 1 - 52)) = 9007199254740991"
    by (rule round_even_eval(1)) (simp_all add: p)
  ultimately show ?thesis
    by (simp add: p)
qed

lemma round64_3_times: "round64 (3 * (5882252574524729 / 2 ^ 58)) = 8823378861787094 / 2 ^ 57"
proof -
  let ?x = "3 * (5882252574524729 / 2 ^ 58) :: real"
  have p: "pow2 (- 5) = 1 / 2 ^ 5" "pow2 (- 4) = 1 / 2 ^ 4" "pow2 (- 57) = 1 / 2 ^ 57"
    using pow2_neg [of 5] pow2_neg [of 4] pow2_neg [of 57] by simp_all
  have "round64 ?x = sgn ?x * of_int (round_even (\<bar>?x\<bar> / pow2 (- 5 - 52))) * pow2 (- 5 - 52)"
    by (rule round64_eval) (simp_all add: p)
  moreover have "round_even (\<bar>?x\<bar> / pow2 (- 5 - 52)) = (if even (8823378861787093::int) then 8823378861787093 else 8823378861787093 + 1)"
    by (rule round_even_eval(3)) (simp_all add: p)
  ultimately show ?thesis
    by (simp add: p)
qed

lemma max_abs_ge: "x \<in> set xs \<Longrightarrow> \<bar>x\<bar> \<le> max_abs xs"
  by (simp add: max_abs_def)

lemma max_abs_attained:
  assumes "xs \<noteq> []"
  shows "\<exists>x \<in> set xs. \<bar>x\<bar> = max_abs xs"
proof -
  have "Max (set (map abs xs)) \<in> set (map abs xs)"
    using assms by (intro Max_in) simp_all
  then show ?thesis
    by (auto simp: max_abs_def)
qed

lemma round64_zero: "round64 0 = 0"
  by (simp add: round64_def)

lemma abs_round64_upper:
  assumes "\<bar>x\<bar> \<le> t" and "pow2 (- 1022) \<le> t"
  shows "\<bar>round64 x\<bar> \<le> t + t / 2 ^ 53"
proof (cases "x = 0")
  case True
  with assms pow2_pos [of "- 1022"] show ?thesis
    by (simp add: round64_zero)
next
  case False
  show ?thesis
  proof (cases "pow2 (- 1022) \<le> \<bar>x\<bar>")
    case True
    from round64_relative [OF True] have "\<bar>round64 x\<bar> \<le> \<bar>x\<bar> + \<bar>x\<bar> / 2 ^ 53"
      by linarith
    also have "\<dots> \<le> t + t / 2 ^ 53"
      using assms(1) by (intro add_mono divide_right_mono) simp_all
    finally show ?thesis .
  next
    case small: False
    then have x: "\<bar>x\<bar> < pow2 (- 1022)" "0 < \<bar>x\<bar>"
      using False by simp_all
    have "log 2 \<bar>x\<bar> < real_of_int (- 1022)"
      using x by (simp add: log_less_iff pow2_def)
    then have "\<lfloor>log 2 \<bar>x\<bar>\<rfloor> < - 1022"
      by (simp only: floor_less_iff)
    then have m: "max \<lfloor>log 2 \<bar>x\<bar>\<rfloor> (- 1022) = - 1022"
      by simp
    have "\<bar>round64 x - x\<bar> \<le> pow2 (- 1022 - 52) / 2"
      using round64_error [OF False] unfolding m .
    also have "pow2 (- 1022 - 52) / 2 = pow2 (- 1022) / 2 ^ 53"
      using pow2_add [of "- 1022" "- 52"] pow2_neg [of 52] by simp
    finally have "\<bar>round64 x\<bar> \<le> \<bar>x\<bar> + pow2 (- 1022) / 2 ^ 53"
      by linarith
    also have "\<dots> \<le> t + t / 2 ^ 53"
      using assms x by (intro add_mono divide_right_mono) simp_all
    finally show ?thesis .
  qed
qed

lemma abs_round64_lower:
  assumes "pow2 (- 1022) \<le> \<bar>x\<bar>"
  shows "\<bar>x\<bar> - \<bar>x\<bar> / 2 ^ 53 \<le> \<bar>round64 x\<bar>"
  using round64_relative [OF assms] by linarith

lemma max_abs_rounded_products:
  assumes row: "row \<noteq> []" and s: "0 \<le> s"
    and normal: "pow2 (- 1022) \<le> max_abs row * s"
  shows "max_abs row * s - max_abs row * s / 2 ^ 53 \<le> max_abs (map (\<lambda>w. round64 (w * s)) row)"
    and "max_abs (map (\<lambda>w. round64 (w * s)) row) \<le> max_abs row * s + max_abs row * s / 2 ^ 53"
proof -
  let ?t = "max_abs row * s"
  let ?out = "map (\<lambda>w. round64 (w * s)) row"
  from max_abs_attained [OF row] obtain w0 where w0: "w0 \<in> set row" "\<bar>w0\<bar> = max_abs row"
    by blast
  have "\<bar>w0 * s\<bar> = ?t"
    using w0(2) s by (simp add: abs_mult)
  with abs_round64_lower [of "w0 * s"] normal have "?t - ?t / 2 ^ 53 \<le> \<bar>round64 (w0 * s)\<bar>"
    by simp
  moreover have "\<bar>round64 (w0 * s)\<bar> \<le> max_abs ?out"
    using w0(1) by (intro max_abs_ge) simp
  ultimately show "?t - ?t / 2 ^ 53 \<le> max_abs ?out"
    by linarith
  have "\<bar>y\<bar> \<le> ?t + ?t / 2 ^ 53" if "y \<in> set ?out" for y
  proof -
    from that obtain w where w: "w \<in> set row" "y = round64 (w * s)"
      by auto
    have "\<bar>w * s\<bar> \<le> ?t"
      using max_abs_ge [OF w(1)] s by (simp add: abs_mult mult_right_mono)
    from abs_round64_upper [OF this normal] w(2) show ?thesis
      by simp
  qed
  then have "\<forall>a \<in> set (map abs ?out). a \<le> ?t + ?t / 2 ^ 53"
    by auto
  then show "max_abs ?out \<le> ?t + ?t / 2 ^ 53"
    unfolding max_abs_def using row by (subst Max_le_iff) simp_all
qed

lemma two_roundings:
  fixes a t M :: real
  assumes "t - t / 2 ^ 53 \<le> M" and "M \<le> t + t / 2 ^ 53"
    and "a - a / 2 ^ 53 \<le> t" and "t \<le> a + a / 2 ^ 53" and "0 \<le> a"
  shows "\<bar>M - a\<bar> \<le> a / 2 ^ 51"
proof -
  have "M - a \<le> a / 2 ^ 51" and "a - M \<le> a / 2 ^ 51"
    using assms by simp_all
  then show ?thesis
    by (simp only: abs_le_iff minus_diff_eq)
qed

lemma healthcare_export_float64_written:
  assumes "coefs_with_intercept m n = Inr cwi"
    and "r \<noteq> []" and "cwi ! 0 \<noteq> []" and "max_abs (cwi ! 0) \<noteq> 0"
    and "round64 (max_abs r / max_abs (cwi ! 0)) = s"
    and "map (map (\<lambda>w. round64 (w * s))) cwi = out"
    and "finite64 s" and "\<forall>row \<in> set out. \<forall>c \<in> set row. finite64 c"
  shows "healthcare_export_float64 m n (Some (r # rs)) = Written out"
proof -
  have "\<forall>row \<in> set (map (map (\<lambda>w. round64 (w * s))) cwi). \<forall>c \<in> set row. finite64 c"
    using assms(8) by (simp only: assms(6))
  with assms(1-5,7) have "healthcare_export_float64 m n (Some (r # rs))
      = Written (map (map (\<lambda>w. round64 (w * s))) cwi)"
    by (simp add: healthcare_export_float64_def Let_def)
  then show ?thesis
    by (simp only: assms(6))
qed

lemma cwi_49: "coefs_with_intercept model_49 2 = Inr [[49, 3]]"
  by (simp add: coefs_with_intercept_def intercept_per_feature_def model_49_def)

lemma export_49:
  "healthcare_export_float64 model_49 2 (Some [[1, 1 / 2]])
     = Written [[1 - 1 / 2 ^ 53, 8823378861787094 / 2 ^ 57]]"
proof (rule healthcare_export_float64_written [OF cwi_49])
  have "max_abs [1, 1 / 2] / max_abs ([[49, 3]] ! 0) = 1 / 49"
    by (simp add: max_abs_def)
  then show "round64 (max_abs [1, 1 / 2] / max_abs ([[49, 3]] ! 0)) = 5882252574524729 / 2 ^ 58"
    by (simp only: round64_one_49th)
  show "map (map (\<lambda>w. round64 (w * (5882252574524729 / 2 ^ 58)))) [[49, 3]]
          = [[1 - 1 / 2 ^ 53, 8823378861787094 / 2 ^ 57]]"
    by (simp only: list.map round64_49_times round64_3_times)
  show "finite64 (5882252574524729 / 2 ^ 58)"
    by (simp add: finite64_def)
  show "\<forall>row \<in> set [[1 - 1 / 2 ^ 53, 8823378861787094 / 2 ^ 57]]. \<forall>c \<in> set row. finite64 c"
    by (simp add: finite64_def)
qed (simp_all add: max_abs_def)

section \<open>Properties of the model comparison\<close>

subsection \<open>Loops\<close>

lemma for_each_append_trace:
  assumes "\<And>x s s'. x \<in> set xs \<Longrightarrow> body x s = Inr s' \<Longrightarrow> tr s' = tr s @ f x"
    and "for_each xs body s = Inr s'"
  shows "tr s' = tr s @ concat (map f xs)"
  using assms
proof (induction xs arbitrary: s)
  case Nil
  then show ?case by simp
next
  case (Cons x xs)
  from Cons.prems(2) obtain s1 where b: "body x s = Inr s1" and r: "for_each xs body s1 = Inr s'"
    by (auto split: sum.splits)
  have "tr s1 = tr s @ f x"
    using Cons.prems(1) b by simp
  moreover have "tr s' = tr s1 @ concat (map f xs)"
    using Cons.IH [OF _ r] Cons.prems(1) by simp
  ultimately show ?case by simp
qed

lemma for_each_invariant:
  assumes "\<And>x s s'. x \<in> set xs \<Longrightarrow> P s \<Longrightarrow> body x s = Inr s' \<Longrightarrow> P s'"
    and "P s" and "for_each xs body s = Inr s'"
  shows "P s'"
  using assms
proof (induction xs arbitrary: s)
  case Nil
  then show ?case by simp
next
  case (Cons x xs)
  from Cons.prems(3) obtain s1 where b: "body x s = Inr s1" and r: "for_each xs body s1 = Inr s'"
    by (auto split: sum.splits)
  have p: "P s1"
    using Cons.prems(1) [of x s s1] Cons.prems(2) b by simp
  have "\<And>y s s'. y \<in> set xs \<Longrightarrow> P s \<Longrightarrow> body y s = Inr s' \<Longrightarrow> P s'"
    using Cons.prems(1) by auto
  from Cons.IH [OF this p r] show ?case .
qed

lemma for_each_succeeds:
  assumes "\<And>x s. x \<in> set xs \<Longrightarrow> \<exists>s'. body x s = Inr s'"
  shows "\<exists>s'. for_each xs body s = Inr s'"
  using assms
proof (induction xs arbitrary: s)
  case Nil
  then show ?case by simp
next
  case (Cons x xs)
  from Cons.prems [of x s] obtain s1 where b: "body x s = Inr s1"
    by auto
  have "\<exists>s'. for_each xs body s1 = Inr s'"
    using Cons.IH Cons.prems by simp
  with b show ?case by simp
qed

lemma for_each_related:
  assumes "\<And>x s t. x \<in> set xs \<Longrightarrow> R s t \<Longrightarrow> rel_sum (=) R (b1 x s) (b2 x t)"
    and "R s t"
  shows "rel_sum (=) R (for_each xs b1 s) (for_each xs b2 t)"
  using assms
proof (induction xs arbitrary: s t)
  case Nil
  then show ?case by simp
next
  case (Cons x xs)
  have step: "rel_sum (=) R (b1 x s) (b2 x t)"
    using Cons.prems by simp
  show ?case
  proof (cases "b1 x s")
    case (Inl err)
    with step show ?thesis
      by (cases "b2 x t") auto
  next
    case (Inr s1)
    with step obtain t1 where t1: "b2 x t = Inr t1" and "R s1 t1"
      by (cases "b2 x t") auto
    then have "rel_sum (=) R (for_each xs b1 s1) (for_each xs b2 t1)"
      using Cons.IH Cons.prems(1) by simp
    with Inr t1 show ?thesis by simp
  qed
qed

subsection \<open>The order of the calls\<close>

lemma calls_fp_write [simp]: "calls (fp_write t st) = calls st"
  by (simp add: calls_def fp_write_def)

lemma calls_summary [simp]: "calls (summary st) = calls st"
  by (simp add: calls_def summary_def)

lemma calls_fit_and_record:
  "fit_and_record e c X st = Inr st' \<Longrightarrow> calls st' = calls st @ [c]"
  by (auto simp: fit_and_record_def calls_def update_winner_def report_result_def split: sum.splits)

lemma calls_chi_feat:
  "chi_feat e n_clf n_trans X n_feat st = Inr st'
   \<Longrightarrow> calls st' = calls st @ [Reduced n_clf n_trans n_feat Chi_squared]"
  by (auto simp: chi_feat_def split: sum.splits dest!: calls_fit_and_record)

lemma calls_mi_feat:
  "mi_feat e n_clf n_trans X n_feat st = Inr st'
   \<Longrightarrow> calls st' = calls st @ [Reduced n_clf n_trans n_feat Mutual_Importance]"
  by (auto simp: mi_feat_def split: sum.splits dest!: calls_fit_and_record)

lemma calls_for_feat:
  "for_feat e n_clf n_trans X n_feat st = Inr st'
   \<Longrightarrow> calls st' = calls st @ [Reduced n_clf n_trans n_feat Chi_squared,
                                 Reduced n_clf n_trans n_feat Mutual_Importance]"
  by (auto simp: for_feat_def split: sum.splits dest!: calls_chi_feat calls_mi_feat)

lemma calls_for_trans:
  assumes "for_trans e n_clf n_trans st = Inr st'"
  shows "calls st' = calls st @ concat (map (\<lambda>n_feat.
           [Reduced n_clf n_trans n_feat Chi_squared, Reduced n_clf n_trans n_feat Mutual_Importance])
           [2500, 3500, 4500])"
proof -
  from assms obtain X where
    r: "for_each [2500, 3500, 4500] (for_feat e n_clf n_trans X)
          (fp_write (tab @ strTrans ! n_trans @ '':'' @ nl) st) = Inr st'"
    by (auto simp: for_trans_def split: sum.splits)
  have "calls st' = calls (fp_write (tab @ strTrans ! n_trans @ '':'' @ nl) st) @ concat (map (\<lambda>n_feat.
           [Reduced n_clf n_trans n_feat Chi_squared, Reduced n_clf n_trans n_feat Mutual_Importance])
           [2500, 3500, 4500])"
    by (rule for_each_append_trace [OF _ r]) (rule calls_for_feat)
  then show ?thesis by simp
qed

lemma calls_for_clf:
  assumes "for_clf e n_clf st = Inr st'"
  shows "calls st' = calls st @ concat (map (\<lambda>n_trans. concat (map (\<lambda>n_feat.
           [Reduced n_clf n_trans n_feat Chi_squared, Reduced n_clf n_trans n_feat Mutual_Importance])
           [2500, 3500, 4500])) [0..<5])"
proof -
  from assms obtain s1 where
    r: "for_each [0..<5] (for_trans e n_clf) (fp_write (strClf ! n_clf @ '':'' @ nl) st) = Inr s1"
    and s': "st' = fp_write (nl @ nl) s1"
    by (auto simp: for_clf_def split: sum.splits)
  have "calls s1 = calls (fp_write (strClf ! n_clf @ '':'' @ nl) st) @ concat (map (\<lambda>n_trans. concat (map (\<lambda>n_feat.
           [Reduced n_clf n_trans n_feat Chi_squared, Reduced n_clf n_trans n_feat Mutual_Importance])
           [2500, 3500, 4500])) [0..<5])"
    by (rule for_each_append_trace [OF _ r]) (rule calls_for_trans)
  with s' show ?thesis by simp
qed

lemma calls_main_loop:
  assumes "main_loop e st = Inr st'"
  shows "calls st' = calls st @ reduced_configs"
  unfolding reduced_configs_def
  by (rule for_each_append_trace [OF _ assms [unfolded main_loop_def]]) (rule calls_for_clf)

lemma calls_all_trans:
  "all_trans e n_clf n_trans st = Inr st' \<Longrightarrow> calls st' = calls st @ [All_features n_clf n_trans]"
  by (auto simp: all_trans_def split: sum.splits dest!: calls_fit_and_record)

lemma calls_all_clf:
  assumes "all_clf e n_clf st = Inr st'"
  shows "calls st' = calls st @ map (\<lambda>n_trans. All_features n_clf n_trans) [0..<5]"
proof -
  have "calls st' = calls (fp_write (tab @ strClf ! n_clf @ '':'' @ nl) st)
          @ concat (map (\<lambda>n_trans. [All_features n_clf n_trans]) [0..<5])"
    by (rule for_each_append_trace [OF _ assms [unfolded all_clf_def]]) (rule calls_all_trans)
  moreover have "concat (map (\<lambda>n_trans. [All_features n_clf n_trans]) [0..<5])
                 = map (\<lambda>n_trans. All_features n_clf n_trans) [0..<5]"
    by (induction "[0..<5::nat]") auto
  ultimately show ?thesis by simp
qed

lemma calls_all_loop:
  assumes "all_loop e st = Inr st'"
  shows "calls st' = calls st @ all_configs"
proof -
  have "calls st' = calls (fp_write (''All features'' @ nl) st) @ all_configs"
    unfolding all_configs_def
    by (rule for_each_append_trace [OF _ assms [unfolded all_loop_def]]) (rule calls_all_clf)
  then show ?thesis by simp
qed

lemma calls_compareModels:
  assumes "compareModels e = Inr st"
  shows "calls st = reduced_configs @ all_configs"
proof -
  from assms obtain s1 s2 where m: "main_loop e init_state = Inr s1"
    and a: "all_loop e s1 = Inr s2" and st: "st = summary s2"
    by (auto simp: compareModels_def split: sum.splits)
  have "calls init_state = []"
    by (simp add: calls_def init_state_def)
  with calls_main_loop [OF m] calls_all_loop [OF a] st show ?thesis
    by simp
qed

subsection \<open>Invariants of the run\<close>

lemma fit_step_invariant:
  assumes w: "\<And>t s. P s \<Longrightarrow> P (fp_write t s)"
    and f: "\<And>c X s s'. P s \<Longrightarrow> fit_and_record e c X s = Inr s' \<Longrightarrow> P s'"
    and p: "P st"
  shows "chi_feat e n_clf n_trans X n_feat st = Inr st' \<Longrightarrow> P st'"
    and "mi_feat e n_clf n_trans X n_feat st = Inr st' \<Longrightarrow> P st'"
    and "all_trans e n_clf n_trans st = Inr st' \<Longrightarrow> P st'"
proof -
  have step: "fit_and_record e c Y (fp_write t st) = Inr st' \<Longrightarrow> P st'" for c Y t
    using f [OF w [OF p]] by blast
  show "chi_feat e n_clf n_trans X n_feat st = Inr st' \<Longrightarrow> P st'"
    by (auto simp only: chi_feat_def split: sum.splits intro: step)
  show "mi_feat e n_clf n_trans X n_feat st = Inr st' \<Longrightarrow> P st'"
    by (auto simp only: mi_feat_def split: sum.splits intro: step)
  show "all_trans e n_clf n_trans st = Inr st' \<Longrightarrow> P st'"
    by (auto simp only: all_trans_def split: sum.splits intro: step)
qed

lemma for_feat_invariant:
  assumes w: "\<And>t s. P s \<Longrightarrow> P (fp_write t s)"
    and f: "\<And>c X s s'. P s \<Longrightarrow> fit_and_record e c X s = Inr s' \<Longrightarrow> P s'"
    and p: "P st" and r: "for_feat e n_clf n_trans X n_feat st = Inr st'"
  shows "P st'"
proof -
  from r obtain s1 where c: "chi_feat e n_clf n_trans X n_feat st = Inr s1"
    and m: "mi_feat e n_clf n_trans X n_feat s1 = Inr st'"
    by (auto simp: for_feat_def split: sum.splits)
  have p1: "P s1"
    by (rule fit_step_invariant(1) [where P = P, OF w f p c])
  show ?thesis
    by (rule fit_step_invariant(2) [where P = P, OF w f p1 m])
qed

lemma for_trans_invariant:
  assumes w: "\<And>t s. P s \<Longrightarrow> P (fp_write t s)"
    and f: "\<And>c X s s'. P s \<Longrightarrow> fit_and_record e c X s = Inr s' \<Longrightarrow> P s'"
    and p: "P st" and r: "for_trans e n_clf n_trans st = Inr st'"
  shows "P st'"
proof -
  from r obtain X where
    l: "for_each [2500, 3500, 4500] (for_feat e n_clf n_trans X)
          (fp_write (tab @ strTrans ! n_trans @ '':'' @ nl) st) = Inr st'"
    by (auto simp: for_trans_def split: sum.splits)
  show ?thesis
    by (rule for_each_invariant [where P = P, OF _ w [OF p] l]) (rule for_feat_invariant [where P = P, OF w f])
qed

lemma for_clf_invariant:
  assumes w: "\<And>t s. P s \<Longrightarrow> P (fp_write t s)"
    and f: "\<And>c X s s'. P s \<Longrightarrow> fit_and_record e c X s = Inr s' \<Longrightarrow> P s'"
    and p: "P st" and r: "for_clf e n_clf st = Inr st'"
  shows "P st'"
proof -
  from r obtain s1 where
    l: "for_each [0..<5] (for_trans e n_clf) (fp_write (strClf ! n_clf @ '':'' @ nl) st) = Inr s1"
    and s': "st' = fp_write (nl @ nl) s1"
    by (auto simp: for_clf_def split: sum.splits)
  have "P s1"
    by (rule for_each_invariant [where P = P, OF _ w [OF p] l]) (rule for_trans_invariant [where P = P, OF w f])
  with s' w show ?thesis by simp
qed

lemma all_clf_invariant:
  assumes w: "\<And>t s. P s \<Longrightarrow> P (fp_write t s)"
    and f: "\<And>c X s s'. P s \<Longrightarrow> fit_and_record e c X s = Inr s' \<Longrightarrow> P s'"
    and p: "P st" and r: "all_clf e n_clf st = Inr st'"
  shows "P st'"
  by (rule for_each_invariant [where P = P, OF _ w [OF p] r [unfolded all_clf_def]])
     (rule fit_step_invariant(3) [where P = P, OF w f])

lemma run_invariant:
  assumes w: "\<And>t s. P s \<Longrightarrow> P (fp_write t s)"
    and f: "\<And>c X s s'. P s \<Longrightarrow> fit_and_record e c X s = Inr s' \<Longrightarrow> P s'"
    and p: "P init_state" and r: "compareModels e = Inr st"
  shows "\<exists>s. P s \<and> st = summary s"
proof -
  from r obtain s1 s2 where m: "main_loop e init_state = Inr s1"
    and a: "all_loop e s1 = Inr s2" and st: "st = summary s2"
    by (auto simp: compareModels_def split: sum.splits)
  have "P s1"
    by (rule for_each_invariant [where P = P, OF _ p m [unfolded main_loop_def]])
       (rule for_clf_invariant [where P = P, OF w f])
  then have p1: "P (fp_write (''All features'' @ nl) s1)"
    by (rule w)
  have "P s2"
    by (rule for_each_invariant [where P = P, OF _ p1 a [unfolded all_loop_def]])
       (rule all_clf_invariant [where P = P, OF w f])
  with st show ?thesis by blast
qed

subsection \<open>The report and the best result follow the trace\<close>

lemma acc_entries_append: "acc_entries (xs @ ys) = acc_entries xs @ acc_entries ys"
  by (induction xs rule: acc_entries.induct) simp_all

lemma acc_entries_params: "acc_entries (map (\<lambda>(x, y). Text (h x y)) ps) = []"
  by (induction ps) auto

lemma tracked_init: "tracked init_state"
  by (simp add: tracked_def init_state_def)

lemma tracked_fp_write: "tracked s \<Longrightarrow> tracked (fp_write t s)"
  by (simp add: tracked_def fp_write_def acc_entries_append)

lemma tracked_summary: "tracked s \<Longrightarrow> tracked (summary s)"
  by (simp add: tracked_def summary_def acc_entries_append)

lemma tracked_fit_and_record:
  assumes "tracked s" and "fit_and_record e c X s = Inr s'"
  shows "tracked s'"
proof -
  from assms(2) obtain g where g: "GS_fit e c X = Inr g"
    and s': "s' = update_winner c g (report_result g (s\<lparr>evaluated := evaluated s @ [(c, g)]\<rparr>))"
    by (auto simp: fit_and_record_def split: sum.splits)
  have "(max_score s', winnerString s') = keep_best (max_score s, winnerString s) (result_of (c, g))"
    by (simp add: s' update_winner_def report_result_def keep_best_def result_of_def)
  moreover have "acc_entries (fp s') = acc_entries (fp s) @ [best_score g]"
    by (simp add: s' update_winner_def report_result_def acc_entries_append acc_entries_params)
  moreover have "evaluated s' = evaluated s @ [(c, g)]"
    by (simp add: s' update_winner_def report_result_def)
  ultimately show ?thesis
    using assms(1) by (simp add: tracked_def)
qed

lemma tracked_compareModels:
  assumes "compareModels e = Inr st"
  shows "tracked st"
proof -
  have "\<exists>s. tracked s \<and> st = summary s"
    by (rule run_invariant [where P = tracked and e = e, OF _ _ tracked_init assms])
       (erule tracked_fp_write, erule tracked_fit_and_record, assumption)
  then show ?thesis
    by (auto intro: tracked_summary)
qed

lemma from_fit_compareModels:
  assumes "compareModels e = Inr st"
  shows "from_fit e st"
proof -
  have w: "\<And>t s. from_fit e s \<Longrightarrow> from_fit e (fp_write t s)"
    by (simp add: from_fit_def fp_write_def)
  have f: "from_fit e s \<Longrightarrow> fit_and_record e c X s = Inr s' \<Longrightarrow> from_fit e s'" for c X s s'
  proof -
    assume a: "from_fit e s" and b: "fit_and_record e c X s = Inr s'"
    from b obtain g where g: "GS_fit e c X = Inr g"
      and s': "s' = update_winner c g (report_result g (s\<lparr>evaluated := evaluated s @ [(c, g)]\<rparr>))"
      by (auto simp: fit_and_record_def split: sum.splits)
    have "evaluated s' = evaluated s @ [(c, g)]"
      by (simp add: s' update_winner_def report_result_def)
    with a g show "from_fit e s'"
      by (auto simp: from_fit_def)
  qed
  have i: "from_fit e init_state"
    by (simp add: from_fit_def init_state_def)
  have "\<exists>s. from_fit e s \<and> st = summary s"
    by (rule run_invariant [where P = "from_fit e" and e = e, OF w f i assms])
  then show ?thesis
    by (auto simp: from_fit_def summary_def)
qed

subsection \<open>Folding with the strict comparison\<close>

lemma fst_keep_best: "fst (keep_best b r) = max (fst b) (fst r)"
  by (simp add: keep_best_def max_def)

lemma fst_foldl_keep_best_fold:
  "fst (foldl keep_best b rs) = fold max (map fst rs) (fst b)"
  by (induction rs arbitrary: b) (simp_all add: fst_keep_best max.commute)

lemma fst_foldl_keep_best: "fst (foldl keep_best b rs) = Max (insert (fst b) (fst ` set rs))"
proof -
  have "Max (set (fst b # map fst rs)) = fold max (map fst rs) (fst b)"
    by (rule Max.set_eq_fold)
  then show ?thesis
    by (simp add: fst_foldl_keep_best_fold)
qed

lemma foldl_keep_best_below:
  "\<forall>r \<in> set rs. fst r \<le> fst b \<Longrightarrow> foldl keep_best b rs = b"
  by (induction rs arbitrary: b) (auto simp: keep_best_def)

lemma foldl_keep_best_first:
  assumes "i < length rs" and "fst b < fst (rs ! i)"
    and "\<forall>j < length rs. fst (rs ! j) \<le> fst (rs ! i)"
    and "\<forall>j < i. fst (rs ! j) < fst (rs ! i)"
  shows "foldl keep_best b rs = rs ! i"
  using assms
proof (induction rs arbitrary: b i)
  case Nil
  then show ?case by simp
next
  case (Cons r rs)
  show ?case
  proof (cases i)
    case 0
    with Cons.prems have "keep_best b r = r"
      by (simp add: keep_best_def)
    moreover have "\<forall>x \<in> set rs. fst x \<le> fst r"
    proof
      fix x assume "x \<in> set rs"
      then obtain k where "k < length rs" "rs ! k = x"
        by (auto simp: in_set_conv_nth)
      with Cons.prems(3) [rule_format, of "Suc k"] 0 show "fst x \<le> fst r"
        by simp
    qed
    ultimately show ?thesis
      using 0 by (simp add: foldl_keep_best_below)
  next
    case (Suc k)
    from Cons.prems(4) [rule_format, of 0] Suc have r: "fst r < fst (rs ! k)"
      by simp
    have 1: "k < length rs"
      using Cons.prems(1) Suc by simp
    have 2: "fst (keep_best b r) < fst (rs ! k)"
      using r Cons.prems(2) Suc by (simp add: keep_best_def)
    have 3: "\<forall>j < length rs. fst (rs ! j) \<le> fst (rs ! k)"
      using Cons.prems(3) Suc by auto
    have 4: "\<forall>j < k. fst (rs ! j) < fst (rs ! k)"
      using Cons.prems(4) Suc by auto
    from Cons.IH [OF 1 2 3 4] Suc show ?thesis
      by simp
  qed
qed

lemma foldl_keep_best_prefix:
  "fst (foldl keep_best b (take j rs)) \<le> fst (foldl keep_best b rs)"
proof -
  have "foldl keep_best b rs = foldl keep_best (foldl keep_best b (take j rs)) (drop j rs)"
    by (metis append_take_drop_id foldl_append)
  moreover have "fst c \<le> fst (foldl keep_best c xs)" for c xs
    by (simp add: fst_foldl_keep_best)
  ultimately show ?thesis by simp
qed

subsection \<open>The rows that are transformed\<close>

lemma transformed_rows:
  assumes "X_all e = r0 # r1 # r2 # rest"
    and "trans_at e n_trans [map (\<lambda>x. x + eps) r1, map (\<lambda>x. x + eps) r2] = Inr [v1, v2]"
    and "length v1 = length r1" and "length v2 = length r2"
  shows "transformed e n_trans = Inr (r0 # v1 # v2 # rest)"
  using assms by (simp add: transformed_def)

subsection \<open>Ranking\<close>

lemma set_argsort: "set (argsort xs) = {0..<length xs}"
  by (auto simp: argsort_def)






lemma sorted_take_drop:
  assumes "sorted (map f l)" and "i \<in> set (take k l)" and "j \<in> set (drop k l)"
  shows "f i \<le> f j"
proof -
  have "sorted (map f (take k l) @ map f (drop k l))"
    using assms(1) by (simp flip: map_append)
  with assms(2,3) show ?thesis
    by (auto simp: sorted_append)
qed

text \<open>What follows from the ascending order alone, whatever the order of equal scores.\<close>

lemma ascending_ranking_drop:
  assumes "mset inds = mset [0..<n]" and "sorted (map (\<lambda>i. scores ! i) inds)"
  shows "(\<forall>i \<in> set (take k inds). \<forall>j \<in> set (drop k inds). scores ! i \<le> scores ! j)
         \<and> set (take k inds) \<inter> set (drop k inds) = {}
         \<and> length (drop k inds) = n - k"
proof -
  have "distinct inds"
    using assms(1) by (metis distinct_upt mset_eq_imp_distinct_iff)
  then have "distinct (take k inds @ drop k inds)"
    by simp
  then have d: "set (take k inds) \<inter> set (drop k inds) = {}"
    by (simp only: distinct_append)
  have "length inds = n"
    using assms(1) by (metis length_upt mset_eq_length minus_nat.diff_0)
  then have l: "length (drop k inds) = n - k"
    by simp
  from sorted_take_drop [OF assms(2)] d l show ?thesis
    by blast
qed

lemma select_columns_argsort:
  assumes "\<forall>row \<in> set X. length xs \<le> length row"
  shows "select_columns X (drop k (argsort xs))
           = Inr (map (\<lambda>row. map (\<lambda>i. row ! i) (drop k (argsort xs))) X)"
proof -
  have "i < length row" if "row \<in> set X" and "i \<in> set (drop k (argsort xs))" for row i
  proof -
    from that(2) have "i \<in> set (argsort xs)"
      by (rule in_set_dropD)
    then have "i < length xs"
      by (simp add: set_argsort)
    with assms that(1) show ?thesis by fastforce
  qed
  then show ?thesis
    by (simp add: select_columns_def)
qed

subsection \<open>Runs that return\<close>

lemma fit_and_record_succeeds:
  assumes "\<And>c X. \<exists>g. GS_fit e c X = Inr g"
  shows "\<exists>s'. fit_and_record e c X s = Inr s'"
proof -
  from assms obtain g where "GS_fit e c X = Inr g" by blast
  then show ?thesis
    by (simp add: fit_and_record_def)
qed

lemma for_feat_succeeds:
  assumes g: "\<And>c X. \<exists>g. GS_fit e c X = Inr g"
    and x: "\<forall>row \<in> set X. length (chi_scores e) \<le> length row \<and> length (mi_scores e) \<le> length row"
  shows "\<exists>s'. for_feat e n_clf n_trans X n_feat s = Inr s'"
proof -
  have c: "select_columns X (drop n_feat (chi_inds e))
             = Inr (map (\<lambda>row. map (\<lambda>i. row ! i) (drop n_feat (chi_inds e))) X)"
    unfolding chi_inds_def using x by (intro select_columns_argsort) simp
  have m: "select_columns X (drop n_feat (mi_inds e))
             = Inr (map (\<lambda>row. map (\<lambda>i. row ! i) (drop n_feat (mi_inds e))) X)"
    unfolding mi_inds_def using x by (intro select_columns_argsort) simp
  obtain s1 where s1: "chi_feat e n_clf n_trans X n_feat s = Inr s1"
    using fit_and_record_succeeds [of e, OF g] by (fastforce simp: chi_feat_def c)
  obtain s2 where "mi_feat e n_clf n_trans X n_feat s1 = Inr s2"
    using fit_and_record_succeeds [of e, OF g] by (fastforce simp: mi_feat_def m)
  with s1 show ?thesis
    by (simp add: for_feat_def)
qed

lemma compareModels_succeeds:
  assumes g: "\<And>c X. \<exists>g. GS_fit e c X = Inr g"
    and t: "\<And>n. n < 5 \<Longrightarrow> \<exists>X. transformed e n = Inr X
              \<and> (\<forall>row \<in> set X. length (chi_scores e) \<le> length row \<and> length (mi_scores e) \<le> length row)"
  shows "\<exists>st. compareModels e = Inr st"
proof -
  have ft: "\<exists>s'. for_trans e n_clf n s = Inr s'" if "n < 5" for n_clf n s
  proof -
    from t [OF that] obtain X where X: "transformed e n = Inr X"
      and r: "\<forall>row \<in> set X. length (chi_scores e) \<le> length row \<and> length (mi_scores e) \<le> length row"
      by blast
    have "\<exists>s'. for_each [2500, 3500, 4500] (for_feat e n_clf n X)
            (fp_write (tab @ strTrans ! n @ '':'' @ nl) s) = Inr s'"
      by (rule for_each_succeeds) (rule for_feat_succeeds [OF g r])
    with X show ?thesis
      by (simp add: for_trans_def)
  qed
  have fc: "\<exists>s'. for_clf e n_clf s = Inr s'" for n_clf s
  proof -
    have "\<exists>s'. for_each [0..<5] (for_trans e n_clf) (fp_write (strClf ! n_clf @ '':'' @ nl) s) = Inr s'"
      by (rule for_each_succeeds) (rule ft, simp)
    then show ?thesis
      by (auto simp: for_clf_def)
  qed
  have at: "\<exists>s'. all_trans e n_clf n s = Inr s'" if "n < 5" for n_clf n s
  proof -
    from t [OF that] obtain X where X: "transformed e n = Inr X"
      by blast
    with fit_and_record_succeeds [of e, OF g] show ?thesis
      by (simp add: all_trans_def)
  qed
  have ac: "\<exists>s'. all_clf e n_clf s = Inr s'" for n_clf s
    unfolding all_clf_def by (rule for_each_succeeds) (rule at, simp)
  obtain s1 where s1: "main_loop e init_state = Inr s1"
    using for_each_succeeds [of "[0..<4]" "for_clf e" init_state] fc
    by (auto simp: main_loop_def)
  obtain s2 where s2: "all_loop e s1 = Inr s2"
    using for_each_succeeds [of "[0..<4]" "all_clf e" "fp_write (''All features'' @ nl) s1"] ac
    by (auto simp: all_loop_def)
  from s1 s2 show ?thesis
    by (simp add: compareModels_def)
qed

subsection \<open>Runs that agree on what the script reads\<close>

lemma chi_inds_agree: "agree e e' \<Longrightarrow> chi_inds e = chi_inds e'"
  by (simp add: agree_def chi_inds_def)

lemma mi_inds_agree: "agree e e' \<Longrightarrow> mi_inds e = mi_inds e'"
  by (simp add: agree_def mi_inds_def)

lemma transformed_agree: "agree e e' \<Longrightarrow> transformed e n = transformed e' n"
  by (simp add: agree_def transformed_def trans_at_def)

lemma same_visible_fp_write: "same_visible s t \<Longrightarrow> same_visible (fp_write x s) (fp_write x t)"
  by (simp add: same_visible_def fp_write_def)

lemma fit_and_record_agree:
  assumes "agree e e'" and "same_visible s t"
  shows "rel_sum (=) same_visible (fit_and_record e c X s) (fit_and_record e' c X t)"
proof -
  from assms(1) have r: "rel_sum (=) same_best (GS_fit e c X) (GS_fit e' c X)"
    by (simp add: agree_def)
  show ?thesis
  proof (cases "GS_fit e c X")
    case (Inl err)
    with r show ?thesis
      by (cases "GS_fit e' c X") (auto simp: fit_and_record_def)
  next
    case (Inr g)
    with r obtain g' where g': "GS_fit e' c X = Inr g'" and "same_best g g'"
      by (cases "GS_fit e' c X") auto
    with Inr assms(2) show ?thesis
      by (simp add: fit_and_record_def same_best_def same_visible_def update_winner_def
          report_result_def)
  qed
qed

lemma for_feat_agree:
  assumes a: "agree e e'" and v: "same_visible s t"
  shows "rel_sum (=) same_visible (for_feat e n_clf n_trans X n_feat s) (for_feat e' n_clf n_trans X n_feat t)"
proof -
  have c: "rel_sum (=) same_visible (chi_feat e n_clf n_trans X n_feat s) (chi_feat e' n_clf n_trans X n_feat t)"
    using fit_and_record_agree [OF a same_visible_fp_write [OF v]]
    by (simp add: chi_feat_def chi_inds_agree [OF a] split: sum.splits)
  have m: "rel_sum (=) same_visible (mi_feat e n_clf n_trans X n_feat s1) (mi_feat e' n_clf n_trans X n_feat t1)"
    if "same_visible s1 t1" for s1 t1
    using fit_and_record_agree [OF a same_visible_fp_write [OF that]]
    by (simp add: mi_feat_def mi_inds_agree [OF a] split: sum.splits)
  show ?thesis
  proof (cases "chi_feat e n_clf n_trans X n_feat s")
    case (Inl err)
    with c show ?thesis
      by (cases "chi_feat e' n_clf n_trans X n_feat t") (auto simp: for_feat_def)
  next
    case (Inr s1)
    with c obtain t1 where t1: "chi_feat e' n_clf n_trans X n_feat t = Inr t1" and "same_visible s1 t1"
      by (cases "chi_feat e' n_clf n_trans X n_feat t") auto
    with Inr m show ?thesis
      by (simp add: for_feat_def)
  qed
qed

lemma for_trans_agree:
  assumes a: "agree e e'" and v: "same_visible s t"
  shows "rel_sum (=) same_visible (for_trans e n_clf n_trans s) (for_trans e' n_clf n_trans t)"
proof (cases "transformed e' n_trans")
  case (Inl err)
  then show ?thesis
    by (simp add: for_trans_def transformed_agree [OF a])
next
  case (Inr X)
  have "rel_sum (=) same_visible
          (for_each [2500, 3500, 4500] (for_feat e n_clf n_trans X) (fp_write (tab @ strTrans ! n_trans @ '':'' @ nl) s))
          (for_each [2500, 3500, 4500] (for_feat e' n_clf n_trans X) (fp_write (tab @ strTrans ! n_trans @ '':'' @ nl) t))"
    by (rule for_each_related [where R = same_visible, OF for_feat_agree [OF a] same_visible_fp_write [OF v]])
  with Inr show ?thesis
    by (simp add: for_trans_def transformed_agree [OF a])
qed

lemma for_clf_agree:
  assumes a: "agree e e'" and v: "same_visible s t"
  shows "rel_sum (=) same_visible (for_clf e n_clf s) (for_clf e' n_clf t)"
proof -
  have r: "rel_sum (=) same_visible
          (for_each [0..<5] (for_trans e n_clf) (fp_write (strClf ! n_clf @ '':'' @ nl) s))
          (for_each [0..<5] (for_trans e' n_clf) (fp_write (strClf ! n_clf @ '':'' @ nl) t))"
    by (rule for_each_related [where R = same_visible, OF for_trans_agree [OF a] same_visible_fp_write [OF v]])
  show ?thesis
  proof (cases "for_each [0..<5] (for_trans e n_clf) (fp_write (strClf ! n_clf @ '':'' @ nl) s)")
    case (Inl err)
    with r show ?thesis
      by (cases "for_each [0..<5] (for_trans e' n_clf) (fp_write (strClf ! n_clf @ '':'' @ nl) t)")
         (auto simp: for_clf_def)
  next
    case (Inr s1)
    with r obtain t1 where
      "for_each [0..<5] (for_trans e' n_clf) (fp_write (strClf ! n_clf @ '':'' @ nl) t) = Inr t1"
      and "same_visible s1 t1"
      by (cases "for_each [0..<5] (for_trans e' n_clf) (fp_write (strClf ! n_clf @ '':'' @ nl) t)") auto
    with Inr show ?thesis
      by (simp add: for_clf_def same_visible_fp_write)
  qed
qed

lemma all_trans_agree:
  assumes a: "agree e e'" and v: "same_visible s t"
  shows "rel_sum (=) same_visible (all_trans e n_clf n_trans s) (all_trans e' n_clf n_trans t)"
  using fit_and_record_agree [OF a same_visible_fp_write [OF v]]
  by (simp add: all_trans_def transformed_agree [OF a] split: sum.splits)

lemma all_clf_agree:
  assumes a: "agree e e'" and v: "same_visible s t"
  shows "rel_sum (=) same_visible (all_clf e n_clf s) (all_clf e' n_clf t)"
  unfolding all_clf_def
  by (rule for_each_related [where R = same_visible, OF all_trans_agree [OF a] same_visible_fp_write [OF v]])

lemma compareModels_agree:
  assumes a: "agree e e'"
  shows "rel_sum (=) same_visible (compareModels e) (compareModels e')"
proof -
  have i: "same_visible init_state init_state"
    by (simp add: same_visible_def)
  have m: "rel_sum (=) same_visible (main_loop e init_state) (main_loop e' init_state)"
    unfolding main_loop_def
    by (rule for_each_related [where R = same_visible, OF for_clf_agree [OF a] i])
  have l: "rel_sum (=) same_visible (all_loop e s) (all_loop e' t)" if "same_visible s t" for s t
    unfolding all_loop_def
    by (rule for_each_related [where R = same_visible, OF all_clf_agree [OF a] same_visible_fp_write [OF that]])
  have sm: "same_visible (summary s) (summary t)" if "same_visible s t" for s t
    using that by (simp add: same_visible_def summary_def)
  show ?thesis
  proof (cases "main_loop e init_state")
    case (Inl err)
    with m show ?thesis
      by (cases "main_loop e' init_state") (auto simp: compareModels_def)
  next
    case (Inr s1)
    with m obtain t1 where t1: "main_loop e' init_state = Inr t1" and v1: "same_visible s1 t1"
      by (cases "main_loop e' init_state") auto
    show ?thesis
    proof (cases "all_loop e s1")
      case (Inl err)
      with l [OF v1] Inr t1 show ?thesis
        by (cases "all_loop e' t1") (auto simp: compareModels_def)
    next
      case r2: (Inr s2)
      with l [OF v1] obtain t2 where "all_loop e' t1 = Inr t2" and "same_visible s2 t2"
        by (cases "all_loop e' t1") auto
      with Inr t1 r2 sm show ?thesis
        by (simp add: compareModels_def)
    qed
  qed
qed

lemma order_length: "length reduced_configs = 120" "length all_configs = 20"
  "length interleaved_configs = 140"
  by (simp_all add: reduced_configs_def all_configs_def interleaved_configs_def upt_rec)

lemma order_samples:
  "(reduced_configs @ all_configs) ! 0 = Reduced 0 0 2500 Chi_squared"
  "(reduced_configs @ all_configs) ! 6 = Reduced 0 1 2500 Chi_squared"
  "(reduced_configs @ all_configs) ! 120 = All_features 0 0"
  "interleaved_configs ! 6 = All_features 0 0"
  by (simp_all add: reduced_configs_def all_configs_def interleaved_configs_def upt_rec)

lemma env_a_transformed:
  "\<exists>X. transformed env_a n = Inr X
     \<and> (\<forall>row \<in> set X. length (chi_scores env_a) \<le> length row \<and> length (mi_scores env_a) \<le> length row)"
  by (auto simp: transformed_def trans_at_def notrans_def env_a_def Let_def)

lemma env_b_transformed:
  "\<exists>X. transformed env_b n = Inr X
     \<and> (\<forall>row \<in> set X. length (chi_scores env_b) \<le> length row \<and> length (mi_scores env_b) \<le> length row)"
  by (auto simp: transformed_def trans_at_def notrans_def env_b_def Let_def)

lemma env_a_runs: "compareModels env_a = Inr (projr (compareModels env_a))"
proof -
  have "\<exists>st. compareModels env_a = Inr st"
    by (rule compareModels_succeeds) (simp add: env_a_def sample_fit_def, rule env_a_transformed)
  then show ?thesis by auto
qed

lemma env_b_runs: "compareModels env_b = Inr (projr (compareModels env_b))"
proof -
  have "\<exists>st. compareModels env_b = Inr st"
    by (rule compareModels_succeeds) (simp add: env_b_def sample_fit_def, rule env_b_transformed)
  then show ?thesis by auto
qed

lemma env_a_agree: "agree env_a env_b"
  by (simp add: agree_def env_a_def env_b_def sample_fit_def same_best_def gs_logreg_def gs_lsvm_def)

lemma sample_fit_results:
  assumes "sample_fit r c X = Inr g"
  shows "best_score g \<le> 9 / 10 \<and> 0 < best_score g"
    and "clf_of c = 0 \<Longrightarrow> g = gs_logreg r"
  using assms
  by (auto simp: sample_fit_def gs_logreg_def gs_forest_def gs_lsvm_def gs_svc_def split: if_splits)

lemma env_a_trace:
  assumes "i < length (evaluated (projr (compareModels env_a)))"
  shows "best_score (snd (evaluated (projr (compareModels env_a)) ! i)) \<le> 9 / 10"
    and "0 < best_score (snd (evaluated (projr (compareModels env_a)) ! i))"
    and "clf_of (fst (evaluated (projr (compareModels env_a)) ! i)) = 0
         \<Longrightarrow> snd (evaluated (projr (compareModels env_a)) ! i) = gs_logreg True"
proof -
  let ?st = "projr (compareModels env_a)"
  have "from_fit env_a ?st"
    by (rule from_fit_compareModels [OF env_a_runs])
  with assms obtain X where
    "GS_fit env_a (fst (evaluated ?st ! i)) X = Inr (snd (evaluated ?st ! i))"
    unfolding from_fit_def using nth_mem by blast
  then have f: "sample_fit True (fst (evaluated ?st ! i)) X = Inr (snd (evaluated ?st ! i))"
    by (simp add: env_a_def)
  from sample_fit_results(1) [OF f]
  show "best_score (snd (evaluated ?st ! i)) \<le> 9 / 10" and "0 < best_score (snd (evaluated ?st ! i))"
    by simp_all
  show "clf_of (fst (evaluated ?st ! i)) = 0 \<Longrightarrow> snd (evaluated ?st ! i) = gs_logreg True"
    by (rule sample_fit_results(2) [OF f])
qed

lemma env_a_first:
  "0 < length (evaluated (projr (compareModels env_a)))"
  "evaluated (projr (compareModels env_a)) ! 0 = (Reduced 0 0 2500 Chi_squared, gs_logreg True)"
proof -
  let ?st = "projr (compareModels env_a)"
  have o: "map fst (evaluated ?st) = reduced_configs @ all_configs"
    using calls_compareModels [OF env_a_runs] by (simp add: calls_def)
  have "length (evaluated ?st) = length (map fst (evaluated ?st))"
    by simp
  also have "\<dots> = length (reduced_configs @ all_configs)"
    by (simp only: o)
  also have "\<dots> = 140"
    by (simp add: order_length)
  finally show l: "0 < length (evaluated ?st)"
    by simp
  have "map fst (evaluated ?st) ! 0 = Reduced 0 0 2500 Chi_squared"
    using o order_samples(1) by simp
  with l have f: "fst (evaluated ?st ! 0) = Reduced 0 0 2500 Chi_squared"
    by simp
  then have "snd (evaluated ?st ! 0) = gs_logreg True"
    using env_a_trace(3) [OF l] by (simp add: clf_of_def)
  with f show "evaluated ?st ! 0 = (Reduced 0 0 2500 Chi_squared, gs_logreg True)"
    by (simp add: prod_eq_iff)
qed

lemma max_score_update_winner: "max_score s \<le> max_score (update_winner c g s)"
  by (simp add: update_winner_def)

lemma max_score_fit_and_record:
  "fit_and_record e c X s = Inr s' \<Longrightarrow> max_score s \<le> max_score s'"
  by (auto simp: fit_and_record_def update_winner_def report_result_def split: sum.splits)

lemma reduced_configs_nth:
  assumes "n_clf < 4" "n_trans < 5" "k < 3"
  shows "reduced_configs ! (30 * n_clf + 6 * n_trans + 2 * k)
           = Reduced n_clf n_trans ([2500, 3500, 4500] ! k) Chi_squared"
    and "reduced_configs ! (30 * n_clf + 6 * n_trans + 2 * k + 1)
           = Reduced n_clf n_trans ([2500, 3500, 4500] ! k) Mutual_Importance"
proof -
  have c: "n_clf \<in> {0, 1, 2, 3}" "n_trans \<in> {0, 1, 2, 3, 4}" "k \<in> {0, 1, 2}"
    using assms by auto
  have e: "reduced_configs = concat (map (\<lambda>n_clf. concat (map (\<lambda>n_trans. concat (map (\<lambda>n_feat.
        [Reduced n_clf n_trans n_feat Chi_squared, Reduced n_clf n_trans n_feat Mutual_Importance])
        [2500, 3500, 4500])) [0, 1, 2, 3, 4])) [0, 1, 2, 3])"
    by (simp add: reduced_configs_def upt_rec)
  from c show "reduced_configs ! (30 * n_clf + 6 * n_trans + 2 * k)
           = Reduced n_clf n_trans ([2500, 3500, 4500] ! k) Chi_squared"
    unfolding e by auto
  from c show "reduced_configs ! (30 * n_clf + 6 * n_trans + 2 * k + 1)
           = Reduced n_clf n_trans ([2500, 3500, 4500] ! k) Mutual_Importance"
    unfolding e by auto
qed

lemma all_configs_nth:
  assumes "n_clf < 4" "n_trans < 5"
  shows "all_configs ! (5 * n_clf + n_trans) = All_features n_clf n_trans"
proof -
  have "n_clf \<in> {0, 1, 2, 3}" "n_trans \<in> {0, 1, 2, 3, 4}"
    using assms by auto
  then show ?thesis
    by (auto simp: all_configs_def upt_rec)
qed

section \<open>The properties of the specification\<close>

text \<open>
  C1. The best result is replaced only when the score of a configuration is strictly
  greater than the current best score; among configurations with the same score the one
  met first stays. For a run that returns: an update changes the variables only on a
  strictly greater score and leaves them alone on an equal or smaller one; the calls are
  made in the order \<open>reduced_configs @ all_configs\<close>; the final score and text are
  the fold of the results in that order; and the first call that reaches the largest
  score (a positive one) gives the final score and text, whatever later call reaches the
  same score.
\<close>

theorem best_replaced_only_when_strictly_greater:
  assumes "compareModels e = Inr st"
  shows "(\<forall>c g s. (update_winner c g s \<noteq> s \<longrightarrow> max_score s < best_score g)
            \<and> (best_score g \<le> max_score s \<longrightarrow> update_winner c g s = s)
            \<and> (max_score s < best_score g \<longrightarrow>
                 max_score (update_winner c g s) = best_score g
                 \<and> winnerString (update_winner c g s) = descriptor c @ str_dict (best_params g)))
         \<and> map fst (evaluated st) = reduced_configs @ all_configs
         \<and> (max_score st, winnerString st)
             = foldl keep_best (0, []) (map result_of (evaluated st))
         \<and> (\<forall>i < length (evaluated st).
              0 < best_score (snd (evaluated st ! i))
              \<and> (\<forall>j < length (evaluated st).
                    best_score (snd (evaluated st ! j)) \<le> best_score (snd (evaluated st ! i)))
              \<and> (\<forall>j < i. best_score (snd (evaluated st ! j)) < best_score (snd (evaluated st ! i)))
              \<longrightarrow> max_score st = best_score (snd (evaluated st ! i))
                  \<and> winnerString st
                      = descriptor (fst (evaluated st ! i)) @ str_dict (best_params (snd (evaluated st ! i))))"
proof -
  let ?rs = "map result_of (evaluated st)"
  have step: "\<forall>c g s. (update_winner c g s \<noteq> s \<longrightarrow> max_score s < best_score g)
            \<and> (best_score g \<le> max_score s \<longrightarrow> update_winner c g s = s)
            \<and> (max_score s < best_score g \<longrightarrow>
                 max_score (update_winner c g s) = best_score g
                 \<and> winnerString (update_winner c g s) = descriptor c @ str_dict (best_params g))"
    by (simp add: update_winner_def)
  have order: "map fst (evaluated st) = reduced_configs @ all_configs"
    using calls_compareModels [OF assms] by (simp add: calls_def)
  have fold: "(max_score st, winnerString st) = foldl keep_best (0, []) ?rs"
    using tracked_compareModels [OF assms] by (simp add: tracked_def)
  have first: "max_score st = best_score (snd (evaluated st ! i))
         \<and> winnerString st = descriptor (fst (evaluated st ! i)) @ str_dict (best_params (snd (evaluated st ! i)))"
    if i: "i < length (evaluated st)" and pos: "0 < best_score (snd (evaluated st ! i))"
      and top: "\<forall>j < length (evaluated st). best_score (snd (evaluated st ! j)) \<le> best_score (snd (evaluated st ! i))"
      and before: "\<forall>j < i. best_score (snd (evaluated st ! j)) < best_score (snd (evaluated st ! i))"
    for i
  proof -
    have 1: "i < length ?rs"
      using i by simp
    have 2: "fst (0::real, []::string) < fst (?rs ! i)"
      using i pos by (simp add: result_of_def)
    have 3: "\<forall>j < length ?rs. fst (?rs ! j) \<le> fst (?rs ! i)"
      using i top by (simp add: result_of_def)
    have 4: "\<forall>j < i. fst (?rs ! j) < fst (?rs ! i)"
      using i before by (simp add: result_of_def)
    have "foldl keep_best (0, []) ?rs = ?rs ! i"
      by (rule foldl_keep_best_first [OF 1 2 3 4])
    with fold i show ?thesis
      by (simp add: result_of_def)
  qed
  from step order fold first show ?thesis
    by blast
qed

text \<open>
  In \<open>env_a\<close> the logistic regression and the random forest both reach 0.9: the
  winner is the first call of the run.
\<close>

theorem best_replaced_only_when_strictly_greater_witness:
  "compareModels env_a = Inr (projr (compareModels env_a))
   \<and> max_score (projr (compareModels env_a)) = 9 / 10
   \<and> winnerString (projr (compareModels env_a))
       = descriptor (Reduced 0 0 2500 Chi_squared) @ str_dict (best_params (gs_logreg True))
   \<and> best_score gs_forest = 9 / 10"
proof -
  let ?st = "projr (compareModels env_a)"
  let ?ev = "evaluated ?st"
  have b: "best_score (snd (?ev ! 0)) = 9 / 10"
    by (simp add: env_a_first(2) gs_logreg_def)
  have pos: "0 < best_score (snd (?ev ! 0))"
    by (rule env_a_trace(2) [OF env_a_first(1)])
  have top: "\<forall>j < length ?ev. best_score (snd (?ev ! j)) \<le> best_score (snd (?ev ! 0))"
    unfolding b using env_a_trace(1) by blast
  have before: "\<forall>j < 0. best_score (snd (?ev ! j)) < best_score (snd (?ev ! 0))"
    by simp
  from best_replaced_only_when_strictly_greater [OF env_a_runs] env_a_first(1) pos top before
  have "max_score ?st = best_score (snd (?ev ! 0))
      \<and> winnerString ?st = descriptor (fst (?ev ! 0)) @ str_dict (best_params (snd (?ev ! 0)))"
    by blast
  then have "max_score ?st = 9 / 10
      \<and> winnerString ?st
          = descriptor (Reduced 0 0 2500 Chi_squared) @ str_dict (best_params (gs_logreg True))"
    unfolding b by (simp only: env_a_first(2) fst_conv snd_conv)
  moreover have "best_score gs_forest = 9 / 10"
    by (simp add: gs_forest_def)
  ultimately show ?thesis
    using env_a_runs by blast
qed

text \<open>
  C2. The best score starts at 0.0 with an empty text before any configuration is
  evaluated; it does not decrease when a result is folded in (in one step, and from any
  prefix of the calls to a longer one); at the end of a run it is the largest of the 140
  scores written to the report. The scores are accuracies, so none is negative (the second
  premise).
\<close>

theorem best_score_is_maximum_of_report:
  assumes "compareModels e = Inr st"
    and "\<forall>c X g. GS_fit e c X = Inr g \<longrightarrow> 0 \<le> best_score g"
  shows "max_score init_state = 0 \<and> winnerString init_state = [] \<and> evaluated init_state = []
         \<and> (\<forall>c X s s'. fit_and_record e c X s = Inr s' \<longrightarrow> max_score s \<le> max_score s')
         \<and> (\<forall>k j. j \<le> k \<longrightarrow>
               fst (foldl keep_best (0, []) (map result_of (take j (evaluated st))))
               \<le> fst (foldl keep_best (0, []) (map result_of (take k (evaluated st)))))
         \<and> max_score st = fst (foldl keep_best (0, []) (map result_of (evaluated st)))
         \<and> acc_entries (fp st) = map (\<lambda>cg. best_score (snd cg)) (evaluated st)
         \<and> length (acc_entries (fp st)) = 140
         \<and> max_score st = Max (set (acc_entries (fp st)))"
proof -
  let ?ev = "evaluated st"
  let ?S = "set (acc_entries (fp st))"
  have init: "max_score init_state = 0 \<and> winnerString init_state = [] \<and> evaluated init_state = []"
    by (simp add: init_state_def)
  have step: "\<forall>c X s s'. fit_and_record e c X s = Inr s' \<longrightarrow> max_score s \<le> max_score s'"
    using max_score_fit_and_record by blast
  have prefix: "\<forall>k j. j \<le> k \<longrightarrow>
               fst (foldl keep_best (0, []) (map result_of (take j ?ev)))
               \<le> fst (foldl keep_best (0, []) (map result_of (take k ?ev)))"
  proof (intro allI impI)
    fix k j :: nat
    assume "j \<le> k"
    then have "take j (map result_of (take k ?ev)) = map result_of (take j ?ev)"
      by (simp add: take_map min_absorb1)
    with foldl_keep_best_prefix [of "(0, [])" j "map result_of (take k ?ev)"]
    show "fst (foldl keep_best (0, []) (map result_of (take j ?ev)))
            \<le> fst (foldl keep_best (0, []) (map result_of (take k ?ev)))"
      by simp
  qed
  have tr: "tracked st"
    by (rule tracked_compareModels [OF assms(1)])
  then have fold: "max_score st = fst (foldl keep_best (0, []) (map result_of ?ev))"
    by (simp add: tracked_def prod_eq_iff)
  from tr have acc: "acc_entries (fp st) = map (\<lambda>cg. best_score (snd cg)) ?ev"
    by (simp add: tracked_def)
  have "length ?ev = length (map fst ?ev)"
    by simp
  also have "\<dots> = length (reduced_configs @ all_configs)"
    using calls_compareModels [OF assms(1)] by (simp only: calls_def)
  also have "\<dots> = 140"
    by (simp add: order_length)
  finally have len: "length ?ev = 140" .
  have S: "?S = fst ` set (map result_of ?ev)"
    by (simp add: acc result_of_def image_image)
  have ne: "?S \<noteq> {}"
    using len acc by auto
  have nonneg: "0 \<le> x" if "x \<in> ?S" for x
  proof -
    from that acc obtain cg where cg: "cg \<in> set ?ev" and x: "x = best_score (snd cg)"
      by auto
    from from_fit_compareModels [OF assms(1)] cg obtain X where "GS_fit e (fst cg) X = Inr (snd cg)"
      by (auto simp: from_fit_def)
    with assms(2) x show ?thesis by blast
  qed
  have "max_score st = Max (insert 0 ?S)"
    using fold by (simp add: fst_foldl_keep_best S)
  also have "\<dots> = max 0 (Max ?S)"
    using ne by (simp add: Max_insert)
  also have "\<dots> = Max ?S"
  proof -
    from ne obtain x where x: "x \<in> ?S" by fastforce
    then have "x \<le> Max ?S" by simp
    with nonneg [OF x] show ?thesis by simp
  qed
  finally have "max_score st = Max ?S" .
  with init step prefix fold acc len show ?thesis
    by simp
qed

theorem best_score_is_maximum_of_report_witness:
  "compareModels env_a = Inr (projr (compareModels env_a))
   \<and> 0 \<le> best_score (gs_logreg True) \<and> 0 \<le> best_score gs_forest
   \<and> 0 \<le> best_score (gs_lsvm True) \<and> 0 \<le> best_score gs_svc
   \<and> max_score (projr (compareModels env_a)) = Max (set (acc_entries (fp (projr (compareModels env_a)))))
   \<and> length (acc_entries (fp (projr (compareModels env_a)))) = 140"
proof -
  have "\<forall>c X g. GS_fit env_a c X = Inr g \<longrightarrow> 0 \<le> best_score g"
    by (auto simp: env_a_def sample_fit_def gs_logreg_def gs_forest_def gs_lsvm_def gs_svc_def)
  from best_score_is_maximum_of_report [OF env_a_runs this]
  have "max_score (projr (compareModels env_a)) = Max (set (acc_entries (fp (projr (compareModels env_a)))))
      \<and> length (acc_entries (fp (projr (compareModels env_a)))) = 140"
    by blast
  moreover have "0 \<le> best_score (gs_logreg True) \<and> 0 \<le> best_score gs_forest
      \<and> 0 \<le> best_score (gs_lsvm True) \<and> 0 \<le> best_score gs_svc"
    by (simp add: gs_logreg_def gs_forest_def gs_lsvm_def gs_svc_def)
  ultimately show ?thesis
    using env_a_runs by blast
qed

text \<open>
  C3. The order of the calls is fixed: first the 120 reduced configurations, by model
  family, then transform, then number of removed features (2500, 3500, 4500), Chi-squared
  before Mutual Information; then, in a second pass after all of them, the 20 all-features
  configurations, by model family, then transform. The all-features configuration of a
  pair is at position \<open>120 + 5 * n_clf + n_trans\<close>, not behind the reduced
  configurations of its pair.
\<close>

theorem calls_in_two_passes:
  assumes "compareModels e = Inr st"
  shows "map fst (evaluated st) = reduced_configs @ all_configs
         \<and> length reduced_configs = 120 \<and> length all_configs = 20
         \<and> (\<forall>n_clf < 4. \<forall>n_trans < 5. \<forall>k < 3.
               map fst (evaluated st) ! (30 * n_clf + 6 * n_trans + 2 * k)
                 = Reduced n_clf n_trans ([2500, 3500, 4500] ! k) Chi_squared
               \<and> map fst (evaluated st) ! (30 * n_clf + 6 * n_trans + 2 * k + 1)
                 = Reduced n_clf n_trans ([2500, 3500, 4500] ! k) Mutual_Importance)
         \<and> (\<forall>n_clf < 4. \<forall>n_trans < 5.
               map fst (evaluated st) ! (120 + 5 * n_clf + n_trans) = All_features n_clf n_trans)"
proof -
  have o: "map fst (evaluated st) = reduced_configs @ all_configs"
    using calls_compareModels [OF assms] by (simp add: calls_def)
  have 1: "(reduced_configs @ all_configs) ! (30 * n_clf + 6 * n_trans + 2 * k)
                 = Reduced n_clf n_trans ([2500, 3500, 4500] ! k) Chi_squared
           \<and> (reduced_configs @ all_configs) ! (30 * n_clf + 6 * n_trans + 2 * k + 1)
                 = Reduced n_clf n_trans ([2500, 3500, 4500] ! k) Mutual_Importance"
    if b: "n_clf < 4" "n_trans < 5" "k < 3" for n_clf n_trans k
  proof -
    from b have "30 * n_clf + 6 * n_trans + 2 * k + 1 < length reduced_configs"
      by (simp add: order_length)
    then show ?thesis
      using reduced_configs_nth [OF b] by (simp add: nth_append)
  qed
  have 2: "(reduced_configs @ all_configs) ! (120 + 5 * n_clf + n_trans) = All_features n_clf n_trans"
    if "n_clf < 4" "n_trans < 5" for n_clf n_trans
    using all_configs_nth [OF that] by (simp add: nth_append order_length)
  from 1 2 show ?thesis
    unfolding o by (simp add: order_length)
qed

theorem calls_in_two_passes_witness:
  "compareModels env_a = Inr (projr (compareModels env_a))
   \<and> map fst (evaluated (projr (compareModels env_a))) ! 6 = Reduced 0 1 2500 Chi_squared
   \<and> map fst (evaluated (projr (compareModels env_a))) ! 120 = All_features 0 0"
proof -
  from calls_in_two_passes [OF env_a_runs]
  have "map fst (evaluated (projr (compareModels env_a))) = reduced_configs @ all_configs"
    by blast
  with env_a_runs order_samples show ?thesis
    by simp
qed

text \<open>
  The seventh call of a run is the first reduced configuration of the next transform,
  where the interleaved order has the all-features configuration of the first pair.
\<close>

theorem all_features_not_interleaved_counterexample:
  "compareModels env_a = Inr (projr (compareModels env_a))
   \<and> map fst (evaluated (projr (compareModels env_a))) ! 6 = Reduced 0 1 2500 Chi_squared
   \<and> interleaved_configs ! 6 = All_features 0 0
   \<and> map fst (evaluated (projr (compareModels env_a))) \<noteq> interleaved_configs"
proof -
  have o: "map fst (evaluated (projr (compareModels env_a))) = reduced_configs @ all_configs"
    using calls_compareModels [OF env_a_runs] by (simp add: calls_def)
  have "(reduced_configs @ all_configs) ! 6 \<noteq> interleaved_configs ! 6"
    by (simp only: order_samples) simp
  then have "reduced_configs @ all_configs \<noteq> interleaved_configs"
    by auto
  with o env_a_runs order_samples show ?thesis
    by simp
qed




text \<open>
  C5. The script transforms \<open>X[1:3]\<close>, which is the rows 1 and 2 with all their
  columns, not the first two columns. On the sample table of three rows the third column,
  discrete by \<open>disMask\<close>, is changed in the rows 1 and 2 (by the added \<open>eps\<close>, the
  transform being \<open>notrans\<close>), and row 0 keeps its two continuous entries. On the table
  of \<open>env_a\<close> every one of the 5000 columns is changed in the rows 1 and 2 and in no
  other row.
\<close>

theorem transform_reaches_discrete_column:
  "transformed env_small 0
     = Inr [[1 / 2, 3 / 2, 1], [1 / 4 + eps, 5 / 2 + eps, 1 + eps], [3 / 4 + eps, 7 / 2 + eps, 0 + eps]]
   \<and> X_all env_small = [[1 / 2, 3 / 2, 1], [1 / 4, 5 / 2, 1], [3 / 4, 7 / 2, 0]]
   \<and> disMask 3 = [False, False, True]
   \<and> 1 + eps \<noteq> 1 \<and> 0 + eps \<noteq> 0
   \<and> transformed env_a 0
       = Inr (replicate 1 (replicate 5000 1) @ replicate 2 (replicate 5000 (1 + eps))
              @ replicate 7 (replicate 5000 1))
   \<and> X_all env_a = replicate 10 (replicate 5000 1)
   \<and> disMask 5000 ! 4999 = True"
  by (simp add: transformed_def trans_at_def notrans_def env_small_def env_a_def disMask_def eps_def
      numeral_3_eq_3 nth_append)

text \<open>
  C6. The script has no handler of its own and writes nothing about single cells of a
  grid: when \<open>GS.fit\<close> raises, the step returns that error, and a run returns only
  if \<open>GS.fit\<close> returned for every configuration; when it returns, the report gets
  the score and the parameters of the best cell and nothing else. So two runs whose grid
  searches agree on the best score and the best parameters leave the same report, best
  score and winner text, whatever cells were refused.
\<close>

theorem report_shows_only_best_cell:
  assumes "agree e e'" and "compareModels e = Inr st"
  shows "compareModels e' = Inr (projr (compareModels e'))
         \<and> fp (projr (compareModels e')) = fp st
         \<and> max_score (projr (compareModels e')) = max_score st
         \<and> winnerString (projr (compareModels e')) = winnerString st
         \<and> (\<forall>c \<in> set (reduced_configs @ all_configs). \<exists>X g. GS_fit e c X = Inr g)
         \<and> (\<forall>c X s err. GS_fit e c X = Inl err \<longrightarrow> fit_and_record e c X s = Inl err)
         \<and> (\<forall>c X s g. GS_fit e c X = Inr g \<longrightarrow>
               (\<exists>s'. fit_and_record e c X s = Inr s'
                  \<and> fp s' = fp s @ [Text (tab @ tab @ tab @ ''Acc:''), Acc (best_score g), Text tab]
                       @ map (\<lambda>(x, y). Text (x @ '':'' @ str_val y @ '' '')) (best_params g)
                       @ [Text nl]))"
proof -
  from compareModels_agree [OF assms(1)] assms(2)
  obtain st' where st': "compareModels e' = Inr st'" and v: "same_visible st st'"
    by (cases "compareModels e'") auto
  have 0: "\<forall>c \<in> set (reduced_configs @ all_configs). \<exists>X g. GS_fit e c X = Inr g"
  proof
    fix c assume "c \<in> set (reduced_configs @ all_configs)"
    then have "c \<in> set (map fst (evaluated st))"
      using calls_compareModels [OF assms(2)] by (simp only: calls_def)
    then obtain cg where "cg \<in> set (evaluated st)" and "fst cg = c"
      by auto
    with from_fit_compareModels [OF assms(2)] show "\<exists>X g. GS_fit e c X = Inr g"
      unfolding from_fit_def by blast
  qed
  have 1: "\<forall>c X s err. GS_fit e c X = Inl err \<longrightarrow> fit_and_record e c X s = Inl err"
    by (simp add: fit_and_record_def)
  have 2: "\<forall>c X s g. GS_fit e c X = Inr g \<longrightarrow>
               (\<exists>s'. fit_and_record e c X s = Inr s'
                  \<and> fp s' = fp s @ [Text (tab @ tab @ tab @ ''Acc:''), Acc (best_score g), Text tab]
                       @ map (\<lambda>(x, y). Text (x @ '':'' @ str_val y @ '' '')) (best_params g)
                       @ [Text nl])"
    by (simp add: fit_and_record_def update_winner_def report_result_def)
  from st' v have "compareModels e' = Inr (projr (compareModels e'))
         \<and> fp (projr (compareModels e')) = fp st
         \<and> max_score (projr (compareModels e')) = max_score st
         \<and> winnerString (projr (compareModels e')) = winnerString st"
    by (simp add: same_visible_def)
  with 0 1 2 show ?thesis
    by blast
qed

theorem report_shows_only_best_cell_witness:
  "agree env_a env_b \<and> compareModels env_a = Inr (projr (compareModels env_a))
   \<and> compareModels env_b = Inr (projr (compareModels env_b))
   \<and> fp (projr (compareModels env_b)) = fp (projr (compareModels env_a))
   \<and> winnerString (projr (compareModels env_b)) = winnerString (projr (compareModels env_a))"
  using report_shows_only_best_cell [OF env_a_agree env_a_runs] env_a_agree env_a_runs
  by blast

text \<open>
  In \<open>env_a\<close> the first grid search has refused cells (penalty l1 with solver lbfgs),
  in \<open>env_b\<close> none; the two reports are the same, and the entry of that grid search
  holds the best cell only.
\<close>

theorem refused_cell_not_in_report_counterexample:
  "compareModels env_a = Inr (projr (compareModels env_a))
   \<and> compareModels env_b = Inr (projr (compareModels env_b))
   \<and> evaluated (projr (compareModels env_a)) ! 0 = (Reduced 0 0 2500 Chi_squared, gs_logreg True)
   \<and> ([(''C'', PyNum ''0.1''), (''penalty'', PyStr ''l1''), (''solver'', PyStr ''lbfgs'')], None)
        \<in> set (cv_results (gs_logreg True))
   \<and> None \<notin> snd ` set (cv_results (gs_logreg False))
   \<and> fp (projr (compareModels env_a)) = fp (projr (compareModels env_b))
   \<and> fp (report_result (gs_logreg True) init_state)
        = [Text (tab @ tab @ tab @ ''Acc:''), Acc (9 / 10), Text tab,
           Text ''C:0.1 '', Text ''penalty:l1 '', Text ''solver:liblinear '', Text nl]"
proof -
  from compareModels_agree [OF env_a_agree] env_a_runs env_b_runs
  have "same_visible (projr (compareModels env_a)) (projr (compareModels env_b))"
    by (metis rel_sum_simps(4))
  then have 1: "fp (projr (compareModels env_a)) = fp (projr (compareModels env_b))"
    by (simp add: same_visible_def)
  have 2: "([(''C'', PyNum ''0.1''), (''penalty'', PyStr ''l1''), (''solver'', PyStr ''lbfgs'')], None)
        \<in> set (cv_results (gs_logreg True))"
    by (simp add: gs_logreg_def logreg_cells_def)
  have 3: "None \<notin> snd ` set (cv_results (gs_logreg False))"
    by (simp add: gs_logreg_def logreg_cells_def)
  have 4: "fp (report_result (gs_logreg True) init_state)
        = [Text (tab @ tab @ tab @ ''Acc:''), Acc (9 / 10), Text tab,
           Text ''C:0.1 '', Text ''penalty:l1 '', Text ''solver:liblinear '', Text nl]"
    by (simp add: report_result_def gs_logreg_def init_state_def)
  from 1 2 3 4 env_a_runs env_b_runs env_a_first(2) show ?thesis
    by blast
qed

text \<open>
  C7. On a table with an all-zero column the chi-squared ranking does not raise, but the
  column is not ranked first: its score is nan (0/0), which \<open>np.argsort\<close> puts after
  every number, so it comes last, as the most informative column. A constant column that
  is not zero has the score 0 and comes first.
\<close>

theorem zero_column_ranked_last:
  "chi2 table_z labels_z = Inr [Finite (9 / 7), Finite 1, Finite 0, NaN]
   \<and> map (\<lambda>row. row ! 2) table_z = [5, 5, 5, 5]
   \<and> map (\<lambda>row. row ! 3) table_z = [0, 0, 0, 0]
   \<and> argsort [Finite (9 / 7), Finite 1, Finite 0, NaN] = [2, 1, 0, 3]
   \<and> X_all env_z = table_z
   \<and> hd (chi_inds env_z) = 2 \<and> last (chi_inds env_z) = 3"
  by (simp add: chi2_def chi2_column_def chi2_term_def class_indicators_def dot_def env_z_def
      table_z_def labels_z_def chi_inds_def argsort_def upt_rec power2_eq_square)

theorem zero_column_ranked_last_witness:
  "chi2 (X_all env_z) labels_z = Inr (chi_scores env_z)
   \<and> chi_scores env_z ! 3 = NaN \<and> last (chi_inds env_z) = 3"
  using zero_column_ranked_last
  by (simp add: env_z_def)

text \<open>
  C8. For a trained binary model with \<open>n\<close> features, the row written by the
  academic trainer, and by the healthcare trainer when there is no reference file, is the
  coefficient row with \<open>intercept * 1.8 / n\<close> added to every entry; only the matrix
  is written. With a reference file the healthcare trainer writes that row multiplied by
  the scale factor.
\<close>

theorem folded_row_exported:
  assumes "trained_binary m n"
  shows "academic_export m n
           = Written [map (\<lambda>w. w + intercept m ! 0 * 1.8 / real n) (coef m ! 0)]
         \<and> healthcare_export m n None
           = Written [map (\<lambda>w. w + intercept m ! 0 * 1.8 / real n) (coef m ! 0)]
         \<and> (0 < n \<and> r \<noteq> []
              \<and> max_abs (map (\<lambda>w. w + intercept m ! 0 * 1.8 / real n) (coef m ! 0)) \<noteq> 0
            \<longrightarrow> healthcare_export m n (Some (r # rs))
                = Written [map (\<lambda>w. (w + intercept m ! 0 * 1.8 / real n)
                      * (max_abs r / max_abs (map (\<lambda>w. w + intercept m ! 0 * 1.8 / real n) (coef m ! 0))))
                    (coef m ! 0)])"
proof -
  from assms have len: "length (coef m ! 0) = n"
    by (simp add: trained_binary_def)
  show ?thesis
    using coefs_with_intercept_binary [OF assms] len
    by (auto simp: academic_export_def healthcare_export_def comp_def)
qed

theorem folded_row_exported_witness:
  "trained_binary model_a 2 \<and> academic_export model_a 2 = Written [[10, 12]]
   \<and> healthcare_export model_a 2 None = Written [[10, 12]]
   \<and> healthcare_export model_a 2 (Some [[6, -3]]) = Written [[5, 6]]"
proof -
  have t: "trained_binary model_a 2"
    by (simp add: trained_binary_def model_a_def)
  show ?thesis
    using t folded_row_exported [OF t, of "[6, -3]" "[]"]
    by (simp add: model_a_def max_abs_def)
qed

text \<open>
  With a reference file the healthcare trainer does not write the folded row \<open>[10, 12]\<close>
  of the sample model but \<open>[5, 6]\<close>.
\<close>

theorem exported_row_is_rescaled_counterexample:
  "trained_binary model_a 2
   \<and> healthcare_export model_a 2 (Some [[6, -3]]) = Written [[5, 6]]
   \<and> Written [[5, 6]] \<noteq> Written [[1 + 10 * 1.8 / 2, 3 + 10 * 1.8 / 2]]"
  by (simp add: trained_binary_def model_a_def healthcare_export_def coefs_with_intercept_def
      intercept_per_feature_def max_abs_def)

text \<open>
  C9. With a reference file whose first row is not empty and a folded row 0 that has a
  non-zero entry, every coefficient written by the healthcare trainer is the float64
  product of the folded one and the float64 quotient
  \<open>max_abs financial_coefs / max_abs (cwi ! 0)\<close>. When the quotient and the largest
  product are not below the normal range and nothing overflows, the largest absolute value
  of the written row 0 is that of the reference row up to the two roundings: the relative
  difference is at most \<open>2 ** -51\<close>.
\<close>

theorem healthcare_export_rescaled:
  assumes "coefs_with_intercept m n = Inr cwi"
    and "r \<noteq> []" and "cwi ! 0 \<noteq> []" and "max_abs (cwi ! 0) \<noteq> 0"
    and "healthcare_export_float64 m n (Some (r # rs)) = Written out"
    and "pow2 (- 1022) \<le> max_abs r / max_abs (cwi ! 0)"
    and "pow2 (- 1022) \<le> max_abs (cwi ! 0) * round64 (max_abs r / max_abs (cwi ! 0))"
  shows "out = map (map (\<lambda>w. round64 (w * round64 (max_abs r / max_abs (cwi ! 0))))) cwi
         \<and> \<bar>max_abs (out ! 0) - max_abs r\<bar> \<le> max_abs r / 2 ^ 51"
proof -
  let ?a = "max_abs r" and ?b = "max_abs (cwi ! 0)"
  let ?s = "round64 (?a / ?b)"
  let ?f = "\<lambda>w. round64 (w * ?s)"
  from assms(1) have ne: "cwi \<noteq> []"
    by (auto simp: coefs_with_intercept_def split: if_splits)
  have out: "out = map (map ?f) cwi"
    using assms(1-5) by (simp add: healthcare_export_float64_def Let_def split: if_splits)
  have b: "0 < ?b"
    using max_abs_nonneg [OF assms(3)] assms(4) by linarith
  have a: "0 \<le> ?a"
    by (rule max_abs_nonneg [OF assms(2)])
  have q: "0 < ?a / ?b"
    using assms(6) pow2_pos [of "- 1022"] by linarith
  have qa: "\<bar>?a / ?b\<bar> = ?a / ?b"
    using q by (simp only: abs_of_pos)
  have "pow2 (- 1022) \<le> \<bar>?a / ?b\<bar>"
    using assms(6) by (simp only: qa)
  then have "\<bar>?s - ?a / ?b\<bar> \<le> \<bar>?a / ?b\<bar> / 2 ^ 53"
    by (rule round64_relative)
  then have "\<bar>?s - ?a / ?b\<bar> \<le> ?a / ?b / 2 ^ 53"
    by (simp only: qa)
  then have s_bounds: "?a / ?b - ?a / ?b / 2 ^ 53 \<le> ?s" "?s \<le> ?a / ?b + ?a / ?b / 2 ^ 53"
    by (simp_all only: abs_le_iff) linarith+
  have s0: "0 \<le> ?s"
    using assms(7) b pow2_pos [of "- 1022"] by (simp add: zero_le_mult_iff not_less [symmetric])
       (metis less_le_trans mult_less_0_iff not_less order.asym)
  have t1: "?a - ?a / 2 ^ 53 \<le> ?b * ?s"
  proof -
    have "?b * (?a / ?b - ?a / ?b / 2 ^ 53) \<le> ?b * ?s"
      using s_bounds(1) b by (intro mult_left_mono) simp_all
    then show ?thesis
      using b by (simp add: algebra_simps)
  qed
  have t2: "?b * ?s \<le> ?a + ?a / 2 ^ 53"
  proof -
    have "?b * ?s \<le> ?b * (?a / ?b + ?a / ?b / 2 ^ 53)"
      using s_bounds(2) b by (intro mult_left_mono) simp_all
    then show ?thesis
      using b by (simp add: algebra_simps)
  qed
  have row0: "out ! 0 = map ?f (cwi ! 0)"
    using ne by (simp add: out nth_map)
  note m = max_abs_rounded_products [OF assms(3) s0 assms(7)]
  have lo: "?b * ?s - ?b * ?s / 2 ^ 53 \<le> max_abs (out ! 0)"
    using m(1) by (simp only: row0)
  have hi: "max_abs (out ! 0) \<le> ?b * ?s + ?b * ?s / 2 ^ 53"
    using m(2) by (simp only: row0)
  have "\<bar>max_abs (out ! 0) - ?a\<bar> \<le> ?a / 2 ^ 51"
    by (rule two_roundings [OF lo hi t1 t2 a])
  with out show ?thesis
    by simp
qed

theorem healthcare_export_rescaled_witness:
  "coefs_with_intercept model_49 2 = Inr [[49, 3]]
   \<and> healthcare_export_float64 model_49 2 (Some [[1, 1 / 2]])
       = Written [[1 - 1 / 2 ^ 53, 8823378861787094 / 2 ^ 57]]
   \<and> \<bar>max_abs [1 - 1 / 2 ^ 53, 8823378861787094 / 2 ^ 57] - max_abs [1, 1 / 2]\<bar>
       \<le> max_abs [1, 1 / 2] / 2 ^ 51"
proof -
  have q: "max_abs [1, 1 / 2] / max_abs ([[49, 3]] ! 0) = 1 / 49"
    by (simp add: max_abs_def)
  have p: "pow2 (- 1022) = 1 / 2 ^ 1022"
    using pow2_neg [of 1022] by simp
  have 1: "pow2 (- 1022) \<le> max_abs [1, 1 / 2] / max_abs ([[49, 3]] ! 0)"
    unfolding q p by simp
  have 2: "pow2 (- 1022) \<le> max_abs ([[49, 3]] ! 0) * round64 (max_abs [1, 1 / 2] / max_abs ([[49, 3]] ! 0))"
    unfolding q p round64_one_49th by (simp add: max_abs_def)
  from healthcare_export_rescaled [OF cwi_49 _ _ _ export_49 1 2]
  have "\<bar>max_abs ([[1 - 1 / 2 ^ 53, 8823378861787094 / 2 ^ 57]] ! 0) - max_abs [1, 1 / 2]\<bar>
       \<le> max_abs [1, 1 / 2] / 2 ^ 51"
    by (simp add: max_abs_def)
  then show ?thesis
    using cwi_49 export_49 by simp
qed

text \<open>
  The two maxima need not be equal: for the folded row \<open>[49, 3]\<close> and the reference row
  \<open>[1, 0.5]\<close> the written row has the maximum \<open>1 - 2 ** -53\<close>, not 1. And when the
  folded row is zero the scale factor is a division by zero and the written row is not
  finite.
\<close>

theorem healthcare_export_not_exact_counterexample:
  "trained_binary model_49 2
   \<and> healthcare_export_float64 model_49 2 (Some [[1, 1 / 2]])
       = Written [[1 - 1 / 2 ^ 53, 8823378861787094 / 2 ^ 57]]
   \<and> max_abs [1 - 1 / 2 ^ 53, 8823378861787094 / 2 ^ 57] = 1 - 1 / 2 ^ 53
   \<and> max_abs [1, 1 / 2] = 1
   \<and> trained_binary model_zero 2
   \<and> healthcare_export_float64 model_zero 2 (Some [[1, 2]]) = NonFinite"
proof -
  have "healthcare_export_float64 model_zero 2 (Some [[1, 2]]) = NonFinite"
    by (simp add: healthcare_export_float64_def model_zero_def coefs_with_intercept_def
        intercept_per_feature_def max_abs_def)
  moreover have "trained_binary model_49 2" "trained_binary model_zero 2"
    by (simp_all add: trained_binary_def model_49_def model_zero_def)
  moreover have "max_abs [1 - 1 / 2 ^ 53, 8823378861787094 / 2 ^ 57] = 1 - 1 / 2 ^ 53"
    "max_abs [1, 1 / 2] = 1"
    by (simp_all add: max_abs_def)
  ultimately show ?thesis
    using export_49 by simp
qed

text \<open>
  C10. When the financial reference file does not exist, the healthcare trainer writes
  the intercept-folded coefficients as they are: no rescaling and no error.
\<close>

theorem healthcare_export_without_reference:
  assumes "trained_binary m n"
  shows "healthcare_export m n None
           = Written [map (\<lambda>w. w + intercept m ! 0 * 1.8 / real n) (coef m ! 0)]
         \<and> coefs_with_intercept m n
           = Inr [map (\<lambda>w. w + intercept m ! 0 * 1.8 / real n) (coef m ! 0)]"
  using coefs_with_intercept_binary [OF assms]
  by (simp add: healthcare_export_def)

theorem healthcare_export_without_reference_witness:
  "trained_binary model_a 2 \<and> healthcare_export model_a 2 None = Written [[10, 12]]"
proof -
  have t: "trained_binary model_a 2"
    by (simp add: trained_binary_def model_a_def)
  show ?thesis
    using t healthcare_export_without_reference [OF t]
    by (simp add: model_a_def)
qed

end
